(* ===== verification/Prelude.thy ===== *)
theory Prelude
  imports Main "HOL-Library.Word" "HOL-Library.Char_ord" "HOL-Library.List_Lexorder"
    "HOL-Library.Product_Lexorder" "HOL-Library.Multiset" "HOL-Library.AList"
begin

text \<open>
  What every component of the development shares: the types that stand for Go's integers,
  instants and durations, Go's 64-bit wrap-around, a small error-or-value type, the
  collections of rewrite rules the component theories fill, and generic lemmas on lists,
  sorting and association lists.
\<close>

named_theorems saga_simps \<open>definitions of the saga data model that proofs unfold\<close>
named_theorems store_simps \<open>behaviour of the store operations on a live request context\<close>
named_theorems runner_simps \<open>definitions of the step runner that proofs unfold\<close>

section \<open>Types of the Go language\<close>

text \<open>
  An instant is the number of nanoseconds since the Unix epoch. Go's \<^verbatim>\<open>time.Time\<close> also
  carries a location; the code calls \<^verbatim>\<open>UTC()\<close> on every instant it keeps, which changes the
  location and not the instant, and compares instants only. A duration is Go's
  \<^verbatim>\<open>int64\<close> count of nanoseconds.
\<close>

type_synonym time = int
type_synonym duration = int
type_synonym byte = char

definition max_int64 :: int where
  "max_int64 = 9223372036854775807"

definition min_int64 :: int where
  "min_int64 = -9223372036854775808"

text \<open>Two's complement wrap-around of Go's 64-bit \<^verbatim>\<open>int\<close> and 32-bit \<^verbatim>\<open>int32\<close>.\<close>

definition wrap64 :: "int \<Rightarrow> int" where
  "wrap64 x = (x + 9223372036854775808) mod 18446744073709551616 - 9223372036854775808"

definition wrap32 :: "int \<Rightarrow> int" where
  "wrap32 x = (x + 2147483648) mod 4294967296 - 2147483648"

definition is_int64 :: "int \<Rightarrow> bool" where
  "is_int64 x \<longleftrightarrow> min_int64 \<le> x \<and> x \<le> max_int64"

lemma wrap64_id [simp]: "is_int64 x \<Longrightarrow> wrap64 x = x"
  by (simp add: is_int64_def wrap64_def min_int64_def max_int64_def)

lemma wrap64_range: "is_int64 (wrap64 x)"
  by (simp add: is_int64_def wrap64_def min_int64_def max_int64_def)

lemma wrap64_over:
  assumes "max_int64 < x" and "x \<le> 2 * max_int64 + 1"
  shows "wrap64 x = x - 18446744073709551616"
proof -
  have "(x + 9223372036854775808) mod 18446744073709551616
      = (x + 9223372036854775808 - 18446744073709551616) mod 18446744073709551616"
    by (simp only: minus_mod_self2)
  also have "\<dots> = x + 9223372036854775808 - 18446744073709551616"
    using assms by (intro mod_pos_pos_trivial) (simp_all add: max_int64_def)
  finally show ?thesis by (simp add: wrap64_def)
qed

text \<open>\<^verbatim>\<open>t.Sub(u)\<close>: the difference, saturated at the ends of \<^verbatim>\<open>int64\<close>.\<close>

definition time_Sub :: "time \<Rightarrow> time \<Rightarrow> duration" where
  "time_Sub t u = max min_int64 (min max_int64 (t - u))"

lemma time_Sub_ge_iff:
  "is_int64 d \<Longrightarrow> d \<le> time_Sub t u \<longleftrightarrow> u \<le> t - d \<or> d = min_int64"
  by (auto simp: time_Sub_def is_int64_def)

section \<open>Lists\<close>

lemma all_set_list_updateI:
  "\<lbrakk>\<And>y. y \<in> set xs \<Longrightarrow> P y; P x\<rbrakk> \<Longrightarrow> \<forall>y \<in> set (xs[i := x]). P y"
  using set_update_subset_insert by fastforce

lemma ex_set_list_update:
  "i < length xs \<Longrightarrow> (\<exists>y \<in> set (xs[i := x]). P y) \<longleftrightarrow> P x \<or> (\<exists>j < length xs. j \<noteq> i \<and> P (xs ! j))"
  by (auto simp: Bex_def in_set_conv_nth nth_list_update split: if_splits)

lemma map_list_update_same: "f x = f (xs ! i) \<Longrightarrow> map f (xs[i := x]) = map f xs"
  by (cases "i < length xs") (auto intro!: nth_equalityI simp: nth_list_update list_update_beyond)

lemma sum_list_map_update:
  fixes f :: "'a \<Rightarrow> 'b::comm_monoid_add"
  shows "i < length xs \<Longrightarrow> sum_list (map f (xs[i := x])) + f (xs ! i) = sum_list (map f xs) + f x"
proof (induction xs arbitrary: i)
  case (Cons y ys)
  show ?case
  proof (cases i)
    case 0
    then show ?thesis by (simp add: ac_simps)
  next
    case (Suc j)
    then show ?thesis using Cons by (simp add: add.assoc)
  qed
qed simp

section \<open>Sorting by a key\<close>

lemma sort_key_unique:
  fixes f :: "'a \<Rightarrow> 'k::linorder"
  assumes "mset xs = mset ys" and "inj_on f (set xs)"
  shows "sort_key f xs = sort_key f ys"
proof (rule properties_for_sort_key)
  show "mset (sort_key f ys) = mset xs" using assms(1) by simp
next
  fix k assume k: "k \<in> set (sort_key f ys)"
  have sets: "set (sort_key f ys) = set xs"
    using assms(1) by (metis mset_eq_setD set_sort)
  have "filter (\<lambda>x. f k = f x) zs = replicate (count (mset zs) k) k" if "set zs = set xs" for zs
  proof -
    have "filter (\<lambda>x. f k = f x) zs = filter (\<lambda>x. k = x) zs"
      using assms(2) k sets that by (auto intro!: filter_cong dest: inj_onD)
    also have "\<dots> = replicate (count (mset zs) k) k" by (induction zs) auto
    finally show ?thesis .
  qed
  with sets show "filter (\<lambda>x. f k = f x) (sort_key f ys) = filter (\<lambda>x. f k = f x) xs"
    using assms(1) by simp
next
  show "sorted (map f (sort_key f ys))" by simp
qed

section \<open>Association lists\<close>

text \<open>
  A Go map is an association list with distinct keys; the order of the list is one order in
  which \<^verbatim>\<open>range\<close> may visit the map.
\<close>

lemma map_of_update: "map_of (AList.update k v xs) = (map_of xs)(k \<mapsto> v)"
  by (simp add: update_conv')

lemma set_alist_update:
  "distinct (map fst xs) \<Longrightarrow>
   set (AList.update k v xs) = insert (k, v) (set xs - {p. fst p = k})"
  by (induction xs) (auto simp: image_iff)

lemma map_of_Some_in_set_iff:
  "distinct (map fst xs) \<Longrightarrow> map_of xs k = Some v \<longleftrightarrow> (k, v) \<in> set xs"
  by (simp add: map_of_eq_Some_iff)

end
