(* ===== verification/Go_Lib.thy ===== *)
theory Go_Lib
  imports Prelude
begin

text \<open>
  The parts of Go's standard library that scipio calls: \<^verbatim>\<open>strings.TrimSpace\<close>,
  \<^verbatim>\<open>strings.ToUpper\<close>, \<^verbatim>\<open>hex.EncodeToString\<close>, \<^verbatim>\<open>sha256.Sum256\<close>, the decimal and quoted
  verbs of \<^verbatim>\<open>fmt\<close>, and the error values with \<^verbatim>\<open>errors.Is\<close>, \<^verbatim>\<open>errors.Join\<close> and
  \<^verbatim>\<open>fmt.Errorf\<close>. A Go string is its list of bytes.
\<close>

unbundle bit_operations_syntax

section \<open>Strings\<close>

text \<open>The UTF-8 encodings of the runes for which \<^verbatim>\<open>unicode.IsSpace\<close> holds.\<close>

definition space_runes :: "string list" where
  "space_runes =
    [[CHR 0x09], [CHR 0x0A], [CHR 0x0B], [CHR 0x0C], [CHR 0x0D], [CHR 0x20],
     [CHR 0xC2, CHR 0x85], [CHR 0xC2, CHR 0xA0], [CHR 0xE1, CHR 0x9A, CHR 0x80],
     [CHR 0xE2, CHR 0x80, CHR 0x80], [CHR 0xE2, CHR 0x80, CHR 0x81],
     [CHR 0xE2, CHR 0x80, CHR 0x82], [CHR 0xE2, CHR 0x80, CHR 0x83],
     [CHR 0xE2, CHR 0x80, CHR 0x84], [CHR 0xE2, CHR 0x80, CHR 0x85],
     [CHR 0xE2, CHR 0x80, CHR 0x86], [CHR 0xE2, CHR 0x80, CHR 0x87],
     [CHR 0xE2, CHR 0x80, CHR 0x88], [CHR 0xE2, CHR 0x80, CHR 0x89],
     [CHR 0xE2, CHR 0x80, CHR 0x8A], [CHR 0xE2, CHR 0x80, CHR 0xA8],
     [CHR 0xE2, CHR 0x80, CHR 0xA9], [CHR 0xE2, CHR 0x80, CHR 0xAF],
     [CHR 0xE2, CHR 0x81, CHR 0x9F], [CHR 0xE3, CHR 0x80, CHR 0x80]]"

definition leading :: "string list \<Rightarrow> string \<Rightarrow> string option" where
  "leading rs s = find (\<lambda>r. r \<noteq> [] \<and> take (length r) s = r) rs"

lemma leading_Some:
  "leading rs s = Some r \<Longrightarrow> r \<in> set rs \<and> r \<noteq> [] \<and> take (length r) s = r \<and> s \<noteq> []"
  by (auto simp: leading_def find_Some_iff)

function strip_left :: "string list \<Rightarrow> string \<Rightarrow> string" where
  "strip_left rs s =
     (case leading rs s of None \<Rightarrow> s | Some r \<Rightarrow> strip_left rs (drop (length r) s))"
  by pat_completeness auto
termination
  by (relation "measure (\<lambda>(rs, s). length s)") (auto dest!: leading_Some)

declare strip_left.simps [simp del]

definition TrimSpace :: "string \<Rightarrow> string" where
  "TrimSpace s = rev (strip_left (map rev space_runes) (rev (strip_left space_runes s)))"

lemma strip_left_stop: "leading rs (strip_left rs s) = None"
proof (induction rs s rule: strip_left.induct)
  case (1 rs s)
  then show ?case by (cases "leading rs s") (simp_all add: strip_left.simps [of rs s])
qed

lemma strip_left_id: "leading rs s = None \<Longrightarrow> strip_left rs s = s"
  by (simp add: strip_left.simps [of rs s])

lemma strip_left_suffix: "\<exists>p. s = p @ strip_left rs s"
proof (induction rs s rule: strip_left.induct)
  case (1 rs s)
  show ?case
  proof (cases "leading rs s")
    case None
    then show ?thesis by (simp add: strip_left_id)
  next
    case (Some r)
    with 1 obtain p where "drop (length r) s = p @ strip_left rs (drop (length r) s)" by blast
    then have "s = (take (length r) s @ p) @ strip_left rs s"
      using Some by (metis append.assoc append_take_drop_id option.simps(5) strip_left.simps)
    then show ?thesis ..
  qed
qed

lemma leading_None_take:
  assumes "leading rs s = None" and "s = t @ u"
  shows "leading rs t = None"
proof (rule ccontr)
  assume "leading rs t \<noteq> None"
  then obtain r where "r \<in> set rs" "r \<noteq> []" "take (length r) t = r"
    by (auto dest: leading_Some)
  moreover from this(3) have "length r \<le> length t" by (metis length_take min.cobounded1)
  ultimately show False using assms by (auto simp: leading_def find_None_iff)
qed

text \<open>Trimming twice is trimming once.\<close>

lemma TrimSpace_idem [simp]: "TrimSpace (TrimSpace s) = TrimSpace s"
proof -
  let ?l = "strip_left space_runes s"
  let ?t = "strip_left (map rev space_runes) (rev ?l)"
  obtain p where "rev ?l = p @ ?t" using strip_left_suffix by blast
  then have "?l = rev ?t @ rev p" by (metis rev_append rev_rev_ident)
  then have "leading space_runes (rev ?t) = None"
    using leading_None_take strip_left_stop by metis
  then show ?thesis
    by (simp add: TrimSpace_def strip_left_id strip_left_stop)
qed

text \<open>
  Upper-casing. Beside the ASCII letters, two runes have an ASCII upper case: dotless i
  (U+0131, bytes C4 B1) and long s (U+017F, bytes C5 BF). The other non-ASCII runes have a
  non-ASCII upper case; they are left as they are, which no comparison with an ASCII
  constant can see.
\<close>

definition upper_char :: "char \<Rightarrow> char" where
  "upper_char c =
     (let n = of_char c :: nat in if 97 \<le> n \<and> n \<le> 122 then char_of (n - 32) else c)"

fun ToUpper :: "string \<Rightarrow> string" where
  "ToUpper [] = []"
| "ToUpper [c] = [upper_char c]"
| "ToUpper (c # d # cs) =
     (if c = CHR 0xC4 \<and> d = CHR 0xB1 then CHR ''I'' # ToUpper cs
      else if c = CHR 0xC5 \<and> d = CHR 0xBF then CHR ''S'' # ToUpper cs
      else upper_char c # ToUpper (d # cs))"

section \<open>Printing numbers and quoted strings\<close>

definition digit_char :: "nat \<Rightarrow> char" where
  "digit_char n = char_of (48 + n)"

fun fmt_nat :: "nat \<Rightarrow> string" where
  "fmt_nat n = (if n < 10 then [digit_char n] else fmt_nat (n div 10) @ [digit_char (n mod 10)])"

declare fmt_nat.simps [simp del]

definition fmt_d :: "int \<Rightarrow> string" where
  "fmt_d i = (if i < 0 then CHR ''-'' # fmt_nat (nat (- i)) else fmt_nat (nat i))"

definition hex_digit :: "nat \<Rightarrow> char" where
  "hex_digit n = (if n < 10 then char_of (48 + n) else char_of (87 + n))"

definition hex_byte :: "char \<Rightarrow> string" where
  "hex_byte c = (let n = of_char c :: nat in [hex_digit (n div 16), hex_digit (n mod 16)])"

definition EncodeToString :: "byte list \<Rightarrow> string" where
  "EncodeToString bs = concat (map hex_byte bs)"

lemma length_EncodeToString [simp]: "length (EncodeToString bs) = 2 * length bs"
  by (induction bs) (simp_all add: EncodeToString_def hex_byte_def Let_def)

text \<open>
  The \<^verbatim>\<open>%q\<close> verb on a string: ASCII bytes are escaped as \<^verbatim>\<open>strconv.Quote\<close> does, the other
  bytes are kept, which is what it does for the printable runes.
\<close>

definition quote_char :: "char \<Rightarrow> string" where
  "quote_char c = (let n = of_char c :: nat in
     if n = 34 then [CHR 92, CHR 34] else if n = 92 then [CHR 92, CHR 92]
     else if n = 7 then [CHR 92, CHR ''a''] else if n = 8 then [CHR 92, CHR ''b'']
     else if n = 12 then [CHR 92, CHR ''f''] else if n = 10 then [CHR 92, CHR ''n'']
     else if n = 13 then [CHR 92, CHR ''r''] else if n = 9 then [CHR 92, CHR ''t'']
     else if n = 11 then [CHR 92, CHR ''v'']
     else if n < 32 \<or> n = 127 then [CHR 92, CHR ''x''] @ hex_byte c else [c])"

definition fmt_q :: "string \<Rightarrow> string" where
  "fmt_q s = [CHR 34] @ concat (map quote_char s) @ [CHR 34]"

section \<open>SHA-256\<close>

text \<open>
  The constants of the algorithm are the first 32 fractional bits of the cube roots of the first
  64 primes and of the square roots of the first 8. The root is found digit by digit.
\<close>

definition iroot :: "nat \<Rightarrow> int \<Rightarrow> int" where
  "iroot k n = foldl (\<lambda>r b. if (r + 2 ^ b) ^ k \<le> n then r + 2 ^ b else r) 0 (rev [0..<40])"

definition sha_primes :: "int list" where
  "sha_primes =
    [2, 3, 5, 7, 11, 13, 17, 19, 23, 29, 31, 37, 41, 43, 47, 53, 59, 61, 67, 71, 73, 79, 83, 89, 97,
     101, 103, 107, 109, 113, 127, 131, 137, 139, 149, 151, 157, 163, 167, 173, 179, 181, 191, 193,
     197, 199, 211, 223, 227, 229, 233, 239, 241, 251, 257, 263, 269, 271, 277, 281, 283, 293, 307, 311]"

definition sha_K :: "32 word list" where
  "sha_K = map (\<lambda>p. word_of_int (iroot 3 (p * 2 ^ 96))) sha_primes"

definition sha_H0 :: "32 word list" where
  "sha_H0 = map (\<lambda>p. word_of_int (iroot 2 (p * 2 ^ 64))) (take 8 sha_primes)"

definition be_word :: "byte list \<Rightarrow> 32 word" where
  "be_word bs = foldl (\<lambda>w b. push_bit 8 w + of_char b) 0 bs"

definition be_bytes :: "32 word \<Rightarrow> byte list" where
  "be_bytes w = map (\<lambda>k. char_of (uint (drop_bit k w))) [24, 16, 8, 0]"

definition be_length :: "nat \<Rightarrow> byte list" where
  "be_length n = map (\<lambda>k. char_of (int n div 2 ^ k)) [56, 48, 40, 32, 24, 16, 8, 0]"

fun chunks :: "nat \<Rightarrow> 'a list \<Rightarrow> 'a list list" where
  "chunks n xs = (if n = 0 \<or> xs = [] then [] else take n xs # chunks n (drop n xs))"

declare chunks.simps [simp del]

definition sha_pad :: "byte list \<Rightarrow> byte list" where
  "sha_pad m = m @ [CHR 0x80] @ replicate ((119 - length m mod 64) mod 64) (CHR 0x00)
     @ be_length (8 * length m)"

definition sha_extend :: "32 word list \<Rightarrow> 32 word list" where
  "sha_extend w = (let t = length w; a = w ! (t - 15); b = w ! (t - 2) in
     w @ [w ! (t - 16) + (word_rotr 7 a XOR word_rotr 18 a XOR drop_bit 3 a)
        + w ! (t - 7) + (word_rotr 17 b XOR word_rotr 19 b XOR drop_bit 10 b)])"

definition sha_schedule :: "byte list \<Rightarrow> 32 word list" where
  "sha_schedule block = (sha_extend ^^ 48) (map be_word (chunks 4 block))"

fun sha_round :: "32 word list \<Rightarrow> 32 word \<times> 32 word \<Rightarrow> 32 word list" where
  "sha_round [a, b, c, d, e, f, g, h] (k, w) =
     (let t1 = h + (word_rotr 6 e XOR word_rotr 11 e XOR word_rotr 25 e)
             + ((e AND f) XOR (NOT e AND g)) + k + w;
          t2 = (word_rotr 2 a XOR word_rotr 13 a XOR word_rotr 22 a)
             + ((a AND b) XOR (a AND c) XOR (b AND c))
      in [t1 + t2, a, b, c, d + t1, e, f, g])"
| "sha_round hs _ = hs"

definition sha_block :: "32 word list \<Rightarrow> byte list \<Rightarrow> 32 word list" where
  "sha_block hs block = map2 (+) hs (foldl sha_round hs (zip sha_K (sha_schedule block)))"

definition Sum256 :: "byte list \<Rightarrow> byte list" where
  "Sum256 m = concat (map be_bytes (foldl sha_block sha_H0 (chunks 64 (sha_pad m))))"

lemma length_sha_round [simp]: "length (sha_round hs kw) = length hs"
  by (induction hs kw rule: sha_round.induct) (simp_all add: Let_def)

lemma length_sha_rounds [simp]: "length (foldl sha_round hs kws) = length hs"
  by (induction kws arbitrary: hs) simp_all

lemma length_sha_blocks: "length (foldl sha_block hs bs) = length hs"
  by (induction bs arbitrary: hs) (simp_all add: sha_block_def)

lemma length_Sum256 [simp]: "length (Sum256 m) = 32"
proof -
  have "length (concat (map be_bytes ws)) = 4 * length ws" for ws
    by (induction ws) (simp_all add: be_bytes_def)
  then show ?thesis by (simp add: Sum256_def length_sha_blocks sha_H0_def sha_primes_def)
qed

end
