(* ===== verification/Go_Errors.thy ===== *)
theory Go_Errors
  imports Go_Lib
begin

text \<open>
  Error values. Every package of scipio declares sentinel errors with \<^verbatim>\<open>errors.New\<close>; each
  package has a datatype of them here. An error is a sentinel, a \<^verbatim>\<open>fmt.Errorf\<close> value that
  wraps another error with \<^verbatim>\<open>%w\<close>, the join of two errors, an error of another library, an
  error with nothing but a text, or a panic (which unwinds like an error result until the
  worker pool recovers it).
\<close>

section \<open>Sentinels of the packages\<close>

datatype domain_error = ErrInvalidSagaStatus | ErrInvalidSagaStepStatus | ErrInvalidSagaContext

datatype store_error = ErrNotFound | ErrAlreadyExists | ErrStorePagination

datatype postgres_error = ErrInvalidPostgresConnectionString | ErrStoreSagaContext

datatype redis_error = ErrInvalidTTL | ErrInvalidRetryInterval | ErrInvalidRedisURL | ErrInvalidPrefix

datatype lock_error = ErrLockContended

datatype service_error =
    ErrInvalidWorkflow | ErrInvalidContext | ErrStepsRequired | ErrInvalidStepName
  | ErrInvalidStepGRPCTarget | ErrInvalidStatusFilter | ErrInvalidPagination
  | ErrStoreNotConfigured | ErrSagaNotFound | ErrSagaLockContended | ErrSagaCancelNotAllowed

datatype runner_error =
    ErrInvalidStepWorkers | ErrInvalidStepPollInterval | ErrInvalidStepStaleTimeout
  | ErrClaimedStepIndexOutOfBounds

datatype pool_error = ErrPoolClosed | ErrWorkerPanic

datatype context_error = Canceled | DeadlineExceeded

datatype sentinel =
    DomainErr domain_error | StoreErr store_error | PostgresErr postgres_error
  | RedisErr redis_error | LockErr lock_error | ServiceErr service_error
  | RunnerErr runner_error | PoolErr pool_error | CtxErr context_error

text \<open>
  Errors of other libraries that scipio tells apart with \<^verbatim>\<open>errors.Is\<close> or \<^verbatim>\<open>errors.As\<close>.
  Their texts are whatever those libraries produce.
\<close>

datatype foreign =
    Pgx_ErrNoRows | Pgx_ErrTxClosed | PgError string
  | Redsync_ErrFailed | Redsync_ErrTaken | Redsync_ErrNodeTaken
  | Redsync_ErrLockAlreadyExpired | Redsync_ErrExtendFailed

datatype error =
    Sentinel sentinel
  | Wrapped string error
  | Joined error error
  | Foreign foreign string
  | Opaque string
  | Panicked string

section \<open>Texts\<close>

primrec domain_error_text :: "domain_error \<Rightarrow> string" where
  "domain_error_text ErrInvalidSagaStatus = ''invalid saga status''"
| "domain_error_text ErrInvalidSagaStepStatus = ''invalid saga step status''"
| "domain_error_text ErrInvalidSagaContext = ''invalid saga context''"

primrec store_error_text :: "store_error \<Rightarrow> string" where
  "store_error_text ErrNotFound = ''saga not found''"
| "store_error_text ErrAlreadyExists = ''saga already exists''"
| "store_error_text ErrStorePagination = ''invalid pagination''"

primrec postgres_error_text :: "postgres_error \<Rightarrow> string" where
  "postgres_error_text ErrInvalidPostgresConnectionString = ''postgres connection string must not be empty''"
| "postgres_error_text ErrStoreSagaContext = ''saga context must be a non-null JSON object''"

primrec redis_error_text :: "redis_error \<Rightarrow> string" where
  "redis_error_text ErrInvalidTTL = ''lock ttl must be positive''"
| "redis_error_text ErrInvalidRetryInterval = ''lock retry interval must be positive''"
| "redis_error_text ErrInvalidRedisURL = ''redis connection url must not be empty''"
| "redis_error_text ErrInvalidPrefix = ''lock prefix must not be empty''"

primrec lock_error_text :: "lock_error \<Rightarrow> string" where
  "lock_error_text ErrLockContended = ''lock is contended''"

primrec service_error_text :: "service_error \<Rightarrow> string" where
  "service_error_text ErrInvalidWorkflow = ''workflow must not be empty''"
| "service_error_text ErrInvalidContext = ''context must be a valid JSON object''"
| "service_error_text ErrStepsRequired = ''steps must not be empty''"
| "service_error_text ErrInvalidStepName = ''step name must not be empty''"
| "service_error_text ErrInvalidStepGRPCTarget = ''step grpc target must not be empty''"
| "service_error_text ErrInvalidStatusFilter = ''invalid status filter''"
| "service_error_text ErrInvalidPagination = ''invalid pagination''"
| "service_error_text ErrStoreNotConfigured = ''saga store is not configured''"
| "service_error_text ErrSagaNotFound = ''saga not found''"
| "service_error_text ErrSagaLockContended = ''saga lock is contended''"
| "service_error_text ErrSagaCancelNotAllowed = ''saga cannot be canceled from current status''"

primrec runner_error_text :: "runner_error \<Rightarrow> string" where
  "runner_error_text ErrInvalidStepWorkers = ''step workers must be positive''"
| "runner_error_text ErrInvalidStepPollInterval = ''step poll interval must be positive''"
| "runner_error_text ErrInvalidStepStaleTimeout = ''step stale timeout must be positive''"
| "runner_error_text ErrClaimedStepIndexOutOfBounds = ''claimed step index is out of bounds''"

primrec pool_error_text :: "pool_error \<Rightarrow> string" where
  "pool_error_text ErrPoolClosed = ''worker pool is closed''"
| "pool_error_text ErrWorkerPanic = ''worker handler panicked''"

primrec context_error_text :: "context_error \<Rightarrow> string" where
  "context_error_text Canceled = ''context canceled''"
| "context_error_text DeadlineExceeded = ''context deadline exceeded''"

primrec sentinel_text :: "sentinel \<Rightarrow> string" where
  "sentinel_text (DomainErr e) = domain_error_text e"
| "sentinel_text (StoreErr e) = store_error_text e"
| "sentinel_text (PostgresErr e) = postgres_error_text e"
| "sentinel_text (RedisErr e) = redis_error_text e"
| "sentinel_text (LockErr e) = lock_error_text e"
| "sentinel_text (ServiceErr e) = service_error_text e"
| "sentinel_text (RunnerErr e) = runner_error_text e"
| "sentinel_text (PoolErr e) = pool_error_text e"
| "sentinel_text (CtxErr e) = context_error_text e"

text \<open>\<^verbatim>\<open>err.Error()\<close>; \<^verbatim>\<open>errors.Join\<close> puts a line feed between the two texts.\<close>

primrec error_text :: "error \<Rightarrow> string" where
  "error_text (Sentinel s) = sentinel_text s"
| "error_text (Wrapped msg e) = msg"
| "error_text (Joined a b) = error_text a @ [CHR 10] @ error_text b"
| "error_text (Foreign k msg) = msg"
| "error_text (Opaque msg) = msg"
| "error_text (Panicked msg) = msg"

section \<open>Inspecting and building errors\<close>

text \<open>
  \<^verbatim>\<open>errors.Is(err, target)\<close> for the sentinels, and for the values of other libraries (by
  \<^verbatim>\<open>errors.Is\<close> or by \<^verbatim>\<open>errors.As\<close> on the type): both walk the wrapped and joined errors.
\<close>

primrec errors_Is :: "error \<Rightarrow> sentinel \<Rightarrow> bool" where
  "errors_Is (Sentinel s) t = (s = t)"
| "errors_Is (Wrapped msg e) t = errors_Is e t"
| "errors_Is (Joined a b) t = (errors_Is a t \<or> errors_Is b t)"
| "errors_Is (Foreign k msg) t = False"
| "errors_Is (Opaque msg) t = False"
| "errors_Is (Panicked msg) t = False"

primrec errors_As :: "error \<Rightarrow> foreign \<Rightarrow> bool" where
  "errors_As (Sentinel s) f = False"
| "errors_As (Wrapped msg e) f = errors_As e f"
| "errors_As (Joined a b) f = (errors_As a f \<or> errors_As b f)"
| "errors_As (Foreign k msg) f = (k = f)"
| "errors_As (Opaque msg) f = False"
| "errors_As (Panicked msg) f = False"

text \<open>\<^verbatim>\<open>fmt.Errorf("%w: %v", s, e)\<close> keeps the sentinel inspectable and only the text of the cause.\<close>

definition wrap_cause :: "sentinel \<Rightarrow> error \<Rightarrow> error" where
  "wrap_cause s e = Wrapped (sentinel_text s @ '': '' @ error_text e) (Sentinel s)"

lemma errors_Is_wrap_cause [simp]: "errors_Is (wrap_cause s e) t \<longleftrightarrow> s = t"
  by (simp add: wrap_cause_def)

section \<open>Request contexts\<close>

text \<open>
  What a call sees of its \<^verbatim>\<open>context.Context\<close>: \<^verbatim>\<open>ctx.Err()\<close> at the moment of the call,
  \<open>None\<close> while the context is alive, and one of the two errors of the package afterwards.
\<close>

type_synonym ctx = "context_error option"

abbreviation live :: ctx where
  "live \<equiv> None"

end
