(* ===== verification/Saga_Locker.thy ===== *)
theory Saga_Locker
  imports Go_Errors
begin

text \<open>
  The locker interface (\<^verbatim>\<open>internal/lock/lock.go\<close>) and the helper that runs a function under
  a saga's lock (\<^verbatim>\<open>internal/service/saga_locker.go\<close>). A locker is a record of operations on
  a lock state. The watchdog goroutine that renews the lock while the function runs is a
  list of the events its \<^verbatim>\<open>select\<close> sees, in order; the list ends when the function has
  returned and the lock context has been cancelled.
\<close>

section \<open>The interface and the no-op locker\<close>

record ('l, 'h) Locker =
  Acquire :: "time option \<Rightarrow> string \<Rightarrow> duration \<Rightarrow> 'l \<Rightarrow> (error + 'h) \<times> 'l"
  Release :: "'h \<Rightarrow> 'l \<Rightarrow> error option \<times> 'l"
  Extend :: "'h \<Rightarrow> 'l \<Rightarrow> error option \<times> 'l"

text \<open>Its handle is one fixed value of the handle type.\<close>

definition Noop :: "'h \<Rightarrow> ('l, 'h) Locker" where
  "Noop noopHandle =
     \<lparr>Acquire = (\<lambda>_ _ _ l. (Inr noopHandle, l)), Release = (\<lambda>_ l. (None, l)), Extend = (\<lambda>_ l. (None, l))\<rparr>"

section \<open>Durations\<close>

text \<open>Go's \<^verbatim>\<open>/\<close> truncates; for a negative operand that is not Isabelle's \<open>div\<close>.\<close>

definition half :: "duration \<Rightarrow> duration" where
  "half d = (if 0 \<le> d then d div 2 else - (- d div 2))"

definition lockRenewInterval :: "duration \<Rightarrow> duration" where
  "lockRenewInterval lockTTL = (let interval = half lockTTL in if interval \<le> 0 then 1 else interval)"

definition lockRenewTimeout :: "duration \<Rightarrow> duration" where
  "lockRenewTimeout lockTTL = (let timeout = half lockTTL in if timeout \<le> 0 then 1 else timeout)"

definition lockAcquireTimeout :: "duration \<Rightarrow> duration" where
  "lockAcquireTimeout lockTTL = (let timeout = lockTTL in if timeout \<le> 0 then 1 else timeout)"

text \<open>The deadline of the acquire context, and whether it was set here.\<close>

definition lockAcquireContext :: "time \<Rightarrow> time option \<Rightarrow> duration \<Rightarrow> time option \<times> bool" where
  "lockAcquireContext now deadline lockTTL =
     (case deadline of
        Some d \<Rightarrow> (Some d, False)
      | None \<Rightarrow> (Some (now + lockAcquireTimeout lockTTL), True))"

definition isLockContended :: "error \<Rightarrow> ctx \<Rightarrow> bool \<Rightarrow> bool" where
  "isLockContended err requestErr hasLocalDeadline =
     (if \<not> hasLocalDeadline then False
      else if requestErr \<noteq> None then False
      else errors_Is err (CtxErr DeadlineExceeded))"

section \<open>Renewal errors\<close>

text \<open>The channel \<^verbatim>\<open>renewErrCh\<close> has room for one error.\<close>

definition offerRenewError :: "error option \<Rightarrow> error \<Rightarrow> error option" where
  "offerRenewError ch err = (case ch of None \<Rightarrow> Some err | Some e \<Rightarrow> Some e)"

definition pollRenewError :: "error option \<Rightarrow> error option" where
  "pollRenewError ch = ch"

definition joinLockErrors :: "error option \<Rightarrow> error option \<Rightarrow> error option" where
  "joinLockErrors fnErr renewErr =
     (case renewErr of
        None \<Rightarrow> fnErr
      | Some r \<Rightarrow> (case fnErr of None \<Rightarrow> Some r | Some f \<Rightarrow> Some (Joined r f)))"

section \<open>The watchdog\<close>

datatype watchdog_event = Tick | LockCtxDone context_error

text \<open>One round of \<^verbatim>\<open>waitAndRenew\<close>: a tick renews the lock, the end of the context is its error.\<close>

definition waitAndRenew ::
  "('l, 'h) Locker \<Rightarrow> 'h \<Rightarrow> watchdog_event \<Rightarrow> 'l \<Rightarrow> error option \<times> 'l" where
  "waitAndRenew locker handle ev l =
     (case ev of
        LockCtxDone e \<Rightarrow> (Some (Sentinel (CtxErr e)), l)
      | Tick \<Rightarrow> Extend locker handle l)"

fun startLockWatchdog ::
  "('l, 'h) Locker \<Rightarrow> 'h \<Rightarrow> watchdog_event list \<Rightarrow> error option \<Rightarrow> 'l \<Rightarrow> error option \<times> 'l" where
  "startLockWatchdog locker handle [] ch l = (ch, l)"
| "startLockWatchdog locker handle (ev # evs) ch l =
     (case waitAndRenew locker handle ev l of
        (None, l') \<Rightarrow> startLockWatchdog locker handle evs ch l'
      | (Some renewErr, l') \<Rightarrow>
          if errors_Is renewErr (CtxErr Canceled) then (ch, l')
          else (offerRenewError ch renewErr, l'))"

definition releaseSagaLock :: "('l, 'h) Locker \<Rightarrow> 'h \<Rightarrow> 'l \<Rightarrow> 'l" where
  "releaseSagaLock locker handle l = snd (Release locker handle l)"

section \<open>Running under the lock\<close>

record ('l, 'h) sagaLocker =
  locker :: "('l, 'h) Locker"
  lockTTL :: duration

definition newSagaLocker :: "'h \<Rightarrow> ('l, 'h) Locker option \<Rightarrow> duration \<Rightarrow> ('l, 'h) sagaLocker" where
  "newSagaLocker noopHandle lkr ttl =
     (let lkr = (case lkr of None \<Rightarrow> Noop noopHandle | Some k \<Rightarrow> k)
      in \<lparr>locker = lkr, lockTTL = ttl\<rparr>)"

text \<open>
  \<open>now\<close> and \<open>deadline\<close> are the clock and the request's deadline at the call, \<open>requestErr\<close> is
  \<^verbatim>\<open>ctx.Err()\<close> when a failed acquire is judged, \<open>evs\<close> what the watchdog sees.
\<close>

definition withSagaLock ::
  "('l, 'h) sagaLocker \<Rightarrow> time \<Rightarrow> time option \<Rightarrow> ctx \<Rightarrow> watchdog_event list \<Rightarrow> string
   \<Rightarrow> ('s \<Rightarrow> error option \<times> 's) \<Rightarrow> 'l \<Rightarrow> 's \<Rightarrow> error option \<times> 'l \<times> 's" where
  "withSagaLock sl now deadline requestErr evs sagaID fn l s =
     (let (acquireDeadline, hasLocalDeadline) = lockAcquireContext now deadline (lockTTL sl)
      in case Acquire (locker sl) acquireDeadline sagaID (lockTTL sl) l of
           (Inl err, l1) \<Rightarrow>
             (if isLockContended err requestErr hasLocalDeadline
              then (Some (Sentinel (LockErr ErrLockContended)), l1, s)
              else (Some err, l1, s))
         | (Inr handle, l1) \<Rightarrow>
             let (renewErrCh, l2) = startLockWatchdog (locker sl) handle evs None l1;
                 (fnErr, s') = fn s;
                 l3 = releaseSagaLock (locker sl) handle l2
             in (joinLockErrors fnErr (pollRenewError renewErrCh), l3, s'))"

section \<open>Facts\<close>

lemma lockRenewInterval_pos: "0 < lockRenewInterval ttl"
  by (simp add: lockRenewInterval_def Let_def)

lemma lockRenewTimeout_pos: "0 < lockRenewTimeout ttl"
  by (simp add: lockRenewTimeout_def Let_def)

lemma joinLockErrors_None [simp]:
  "joinLockErrors fnErr renewErr = None \<longleftrightarrow> fnErr = None \<and> renewErr = None"
  by (auto simp: joinLockErrors_def split: option.splits)

lemma joinLockErrors_Is:
  "joinLockErrors fnErr renewErr = Some e \<Longrightarrow>
   errors_Is e t \<longleftrightarrow> (\<exists>f. fnErr = Some f \<and> errors_Is f t) \<or> (\<exists>r. renewErr = Some r \<and> errors_Is r t)"
  by (auto simp: joinLockErrors_def split: option.splits)

text \<open>A renewal interval fits twice into the time to live, so a renewal always comes in time.\<close>

lemma lockRenewInterval_half: "1 < ttl \<Longrightarrow> 2 * lockRenewInterval ttl \<le> ttl"
  unfolding lockRenewInterval_def half_def Let_def by auto

lemma watchdog_reports:
  "startLockWatchdog lk h evs None l = (Some e, l') \<Longrightarrow> \<not> errors_Is e (CtxErr Canceled)"
  by (induction evs arbitrary: l)
     (auto simp: offerRenewError_def split: option.splits prod.splits if_splits)

lemma withSagaLock_result:
  assumes "Acquire (locker sl) (fst (lockAcquireContext now deadline (lockTTL sl))) sagaID (lockTTL sl) l
    = (Inr h, l1)"
  shows "snd (snd (withSagaLock sl now deadline requestErr evs sagaID fn l s)) = snd (fn s)"
    and "fst (withSagaLock sl now deadline requestErr evs sagaID fn l s)
      = joinLockErrors (fst (fn s)) (fst (startLockWatchdog (locker sl) h evs None l1))"
  using assms
  by (auto simp: withSagaLock_def pollRenewError_def Let_def split: prod.splits)

lemma withSagaLock_refused:
  assumes "Acquire (locker sl) (fst (lockAcquireContext now deadline (lockTTL sl))) sagaID (lockTTL sl) l
    = (Inl err, l1)"
  shows "snd (snd (withSagaLock sl now deadline requestErr evs sagaID fn l s)) = s"
    and "fst (withSagaLock sl now deadline requestErr evs sagaID fn l s) \<noteq> None"
  using assms
  by (auto simp: withSagaLock_def Let_def split: prod.splits)

lemma withSagaLock_state:
  "snd (snd (withSagaLock sl now deadline requestErr evs sagaID fn l s)) \<in> {s, snd (fn s)}"
  by (auto simp: withSagaLock_def Let_def split: prod.splits sum.splits)

section \<open>The no-op locker\<close>

lemma Noop_simps [simp]:
  "Acquire (Noop h) deadline i ttl l = (Inr h, l)" "Release (Noop h) k l = (None, l)"
  "Extend (Noop h) k l = (None, l)"
  by (simp_all add: Noop_def)

lemma watchdog_noop:
  "startLockWatchdog (Noop h) k (replicate n Tick @ [LockCtxDone Canceled]) ch l = (ch, l)"
  by (induction n) (simp_all add: waitAndRenew_def)

text \<open>Without a lock service the function runs, and its result is the result.\<close>

lemma withSagaLock_noop:
  "withSagaLock (newSagaLocker h None ttl) now deadline requestErr (replicate n Tick @ [LockCtxDone Canceled])
     sagaID fn l s = (fst (fn s), l, snd (fn s))"
  by (simp add: withSagaLock_def newSagaLocker_def watchdog_noop Let_def lockAcquireContext_def
      pollRenewError_def joinLockErrors_def releaseSagaLock_def split: option.splits prod.splits)

end
