(* ===== verification/Domain.thy ===== *)
theory Domain
  imports Go_Errors
begin

text \<open>
  \<^verbatim>\<open>internal/domain\<close>: the saga data model (\<^verbatim>\<open>saga.go\<close>), the status parsers
  (\<^verbatim>\<open>status.go\<close>) and the context parser (\<^verbatim>\<open>context.go\<close>). \<^verbatim>\<open>Saga.Clone\<close> is a deep copy;
  as a function of values it maps nil maps to empty ones and changes nothing else.
\<close>

section \<open>Statuses\<close>

text \<open>
  The Go types are strings with six declared constants each. A value outside the constants
  is \<open>SagaStatusOther s\<close>; it is what the \<^verbatim>\<open>default\<close> branches of the code are for.
\<close>

datatype SagaStatus =
    SagaStatusCreated | SagaStatusRunning | SagaStatusCompleted | SagaStatusCanceling
  | SagaStatusCompensated | SagaStatusFailed | SagaStatusOther string

datatype SagaStepStatus =
    SagaStepStatusPending | SagaStepStatusRunning | SagaStepStatusCompleted
  | SagaStepStatusCompensating | SagaStepStatusCompensated | SagaStepStatusFailed
  | SagaStepStatusOther string

primrec saga_status_string :: "SagaStatus \<Rightarrow> string" where
  "saga_status_string SagaStatusCreated = ''CREATED''"
| "saga_status_string SagaStatusRunning = ''RUNNING''"
| "saga_status_string SagaStatusCompleted = ''COMPLETED''"
| "saga_status_string SagaStatusCanceling = ''CANCELING''"
| "saga_status_string SagaStatusCompensated = ''COMPENSATED''"
| "saga_status_string SagaStatusFailed = ''FAILED''"
| "saga_status_string (SagaStatusOther s) = s"

primrec step_status_string :: "SagaStepStatus \<Rightarrow> string" where
  "step_status_string SagaStepStatusPending = ''PENDING''"
| "step_status_string SagaStepStatusRunning = ''RUNNING''"
| "step_status_string SagaStepStatusCompleted = ''COMPLETED''"
| "step_status_string SagaStepStatusCompensating = ''COMPENSATING''"
| "step_status_string SagaStepStatusCompensated = ''COMPENSATED''"
| "step_status_string SagaStepStatusFailed = ''FAILED''"
| "step_status_string (SagaStepStatusOther s) = s"

text \<open>The conversions \<^verbatim>\<open>SagaStatus(s)\<close> and \<^verbatim>\<open>SagaStepStatus(s)\<close> of a string.\<close>

definition to_SagaStatus :: "string \<Rightarrow> SagaStatus" where
  "to_SagaStatus s =
     (if s = ''CREATED'' then SagaStatusCreated
      else if s = ''RUNNING'' then SagaStatusRunning
      else if s = ''COMPLETED'' then SagaStatusCompleted
      else if s = ''CANCELING'' then SagaStatusCanceling
      else if s = ''COMPENSATED'' then SagaStatusCompensated
      else if s = ''FAILED'' then SagaStatusFailed
      else SagaStatusOther s)"

definition to_SagaStepStatus :: "string \<Rightarrow> SagaStepStatus" where
  "to_SagaStepStatus s =
     (if s = ''PENDING'' then SagaStepStatusPending
      else if s = ''RUNNING'' then SagaStepStatusRunning
      else if s = ''COMPLETED'' then SagaStepStatusCompleted
      else if s = ''COMPENSATING'' then SagaStepStatusCompensating
      else if s = ''COMPENSATED'' then SagaStepStatusCompensated
      else if s = ''FAILED'' then SagaStepStatusFailed
      else SagaStepStatusOther s)"

definition declared_status :: "SagaStatus \<Rightarrow> bool" where
  "declared_status s \<longleftrightarrow> (\<forall>x. s \<noteq> SagaStatusOther x)"

definition declared_step_status :: "SagaStepStatus \<Rightarrow> bool" where
  "declared_step_status s \<longleftrightarrow> (\<forall>x. s \<noteq> SagaStepStatusOther x)"

section \<open>Data\<close>

text \<open>
  A value of type \<^verbatim>\<open>any\<close>, of the shapes \<^verbatim>\<open>encoding/json\<close> decodes to. A Go map or slice may
  be nil (\<open>None\<close>); a number is the 64 bits of its \<^verbatim>\<open>float64\<close>.
\<close>

datatype any =
    ANil
  | ABool bool
  | ANumber "64 word"
  | AString string
  | ASlice "any list option"
  | AMap "(string \<Rightarrow> any option) option"

type_synonym context_map = "(string \<Rightarrow> any option) option"

record SagaStep =
  step_Name :: string
  GRPCTarget :: string
  step_Status :: SagaStepStatus
  Attempt :: "32 word"
  StartedAt :: "time option"
  FinishedAt :: "time option"
  step_Error :: string

record ClaimedSagaStep =
  claimed_SagaID :: string
  claimed_StepIndex :: int
  claimed_Name :: string
  claimed_Attempt :: "32 word"

record Saga =
  ID :: string
  Workflow :: string
  Status :: SagaStatus
  Context :: context_map
  Steps :: "SagaStep list"
  CreatedAt :: time
  UpdatedAt :: time

section \<open>Copies\<close>

primrec cloneValue :: "any \<Rightarrow> any" where
  "cloneValue ANil = ANil"
| "cloneValue (ABool b) = ABool b"
| "cloneValue (ANumber n) = ANumber n"
| "cloneValue (AString s) = AString s"
| "cloneValue (ASlice xs) =
     ASlice (Some (case map_option (map cloneValue) xs of None \<Rightarrow> [] | Some ys \<Rightarrow> ys))"
| "cloneValue (AMap m) =
     AMap (Some (case map_option ((\<circ>) (map_option cloneValue)) m of
                   None \<Rightarrow> Map.empty | Some m' \<Rightarrow> m'))"

definition cloneMap :: "context_map \<Rightarrow> context_map" where
  "cloneMap source =
     (case source of None \<Rightarrow> Some Map.empty | Some m \<Rightarrow> Some (map_option cloneValue \<circ> m))"

definition copyTime :: "time option \<Rightarrow> time option" where
  "copyTime value = (case value of None \<Rightarrow> None | Some t \<Rightarrow> Some t)"

definition cloneSteps :: "SagaStep list \<Rightarrow> SagaStep list" where
  "cloneSteps source =
     (if length source = 0 then []
      else map (\<lambda>step.
        \<lparr>step_Name = step_Name step, GRPCTarget = GRPCTarget step,
         step_Status = step_Status step, Attempt = Attempt step,
         StartedAt = copyTime (StartedAt step), FinishedAt = copyTime (FinishedAt step),
         step_Error = step_Error step\<rparr>) source)"

definition Clone :: "Saga \<Rightarrow> Saga" where
  "Clone s =
     \<lparr>ID = ID s, Workflow = Workflow s, Status = Status s, Context = cloneMap (Context s),
      Steps = cloneSteps (Steps s), CreatedAt = CreatedAt s, UpdatedAt = UpdatedAt s\<rparr>"

section \<open>Parsers\<close>

definition ParseSagaStatus :: "string \<Rightarrow> error + SagaStatus" where
  "ParseSagaStatus raw =
     (let status = to_SagaStatus (ToUpper (TrimSpace raw)) in
      case status of
        SagaStatusOther _ \<Rightarrow> Inl (Sentinel (DomainErr ErrInvalidSagaStatus))
      | _ \<Rightarrow> Inr status)"

definition ParseSagaStepStatus :: "string \<Rightarrow> error + SagaStepStatus" where
  "ParseSagaStepStatus raw =
     (let status = to_SagaStepStatus (ToUpper (TrimSpace raw)) in
      case status of
        SagaStepStatusOther _ \<Rightarrow> Inl (Sentinel (DomainErr ErrInvalidSagaStepStatus))
      | _ \<Rightarrow> Inr status)"

definition MapSagaSteps :: "SagaStep list \<Rightarrow> (SagaStep \<Rightarrow> 'a) \<Rightarrow> 'a list" where
  "MapSagaSteps steps mapper = foldl (\<lambda>mapped step. mapped @ [mapper step]) [] steps"

definition MaxSagaContextBytes :: int where
  "MaxSagaContextBytes = 65536"

text \<open>
  \<^verbatim>\<open>ParseSagaContext\<close>. The argument \<open>unmarshal\<close> is \<^verbatim>\<open>json.Unmarshal\<close> into a
  \<^verbatim>\<open>map[string]any\<close>: an error, or the map, nil for the JSON value \<^verbatim>\<open>null\<close>.
\<close>

definition ParseSagaContext :: "(byte list \<Rightarrow> error + context_map) \<Rightarrow> byte list \<Rightarrow> error + context_map" where
  "ParseSagaContext unmarshal rawContext =
     (if length rawContext = 0 then Inl (Sentinel (DomainErr ErrInvalidSagaContext))
      else if int (length rawContext) > MaxSagaContextBytes then
        Inl (Wrapped (domain_error_text ErrInvalidSagaContext @ '': context exceeds ''
               @ fmt_d MaxSagaContextBytes @ '' bytes'')
             (Sentinel (DomainErr ErrInvalidSagaContext)))
      else case unmarshal rawContext of
        Inl err \<Rightarrow> Inl (wrap_cause (DomainErr ErrInvalidSagaContext) err)
      | Inr None \<Rightarrow> Inl (Sentinel (DomainErr ErrInvalidSagaContext))
      | Inr (Some parsed) \<Rightarrow> Inr (Some parsed))"

section \<open>Facts about statuses\<close>

lemma declared_status_simps [simp]:
  "declared_status SagaStatusCreated" "declared_status SagaStatusRunning"
  "declared_status SagaStatusCompleted" "declared_status SagaStatusCanceling"
  "declared_status SagaStatusCompensated" "declared_status SagaStatusFailed"
  "\<not> declared_status (SagaStatusOther x)"
  by (simp_all add: declared_status_def)

lemma declared_step_status_simps [simp]:
  "declared_step_status SagaStepStatusPending" "declared_step_status SagaStepStatusRunning"
  "declared_step_status SagaStepStatusCompleted" "declared_step_status SagaStepStatusCompensating"
  "declared_step_status SagaStepStatusCompensated" "declared_step_status SagaStepStatusFailed"
  "\<not> declared_step_status (SagaStepStatusOther x)"
  by (simp_all add: declared_step_status_def)

section \<open>Facts about copies\<close>

lemma copyTime_id [simp]: "copyTime t = t"
  by (cases t) (simp_all add: copyTime_def)

lemma cloneSteps_id [simp]: "cloneSteps steps = steps"
  by (cases "steps = []") (auto simp: cloneSteps_def intro: map_idI)

lemma cloneValue_idem [simp]: "cloneValue (cloneValue v) = cloneValue v"
proof (induction v)
  case (ASlice xs)
  then show ?case by (cases xs) (auto intro!: map_cong)
next
  case (AMap m)
  show ?case
  proof (cases m)
    case None
    then show ?thesis by (simp add: comp_def)
  next
    case (Some f)
    then have "cloneValue (cloneValue v) = cloneValue v" if "f k = Some v" for k v
      using AMap [of f "f k" v] that rangeI [of f k] by simp
    then have "map_option cloneValue (map_option cloneValue (f k)) = map_option cloneValue (f k)" for k
      by (cases "f k") auto
    then show ?thesis using Some by (simp add: comp_def)
  qed
qed simp_all

lemma cloneMap_idem [simp]: "cloneMap (cloneMap m) = cloneMap m"
proof -
  have "map_option cloneValue (map_option cloneValue x) = map_option cloneValue x" for x
    by (cases x) auto
  then show ?thesis by (auto simp: cloneMap_def comp_def split: option.splits)
qed

lemma Clone_simps [simp]:
  "ID (Clone s) = ID s" "Workflow (Clone s) = Workflow s" "Status (Clone s) = Status s"
  "Context (Clone s) = cloneMap (Context s)" "Steps (Clone s) = Steps s"
  "CreatedAt (Clone s) = CreatedAt s" "UpdatedAt (Clone s) = UpdatedAt s"
  by (simp_all add: Clone_def)

lemma Clone_update_simps [simp]:
  "Clone (s\<lparr>Steps := st\<rparr>) = (Clone s)\<lparr>Steps := st\<rparr>"
  "Clone (s\<lparr>UpdatedAt := t\<rparr>) = (Clone s)\<lparr>UpdatedAt := t\<rparr>"
  "Clone (s\<lparr>Status := x\<rparr>) = (Clone s)\<lparr>Status := x\<rparr>"
  by (simp_all add: Clone_def)

lemma Clone_idem [simp]: "Clone (Clone s) = Clone s"
  by (rule Saga.equality) simp_all

lemma MapSagaSteps_map: "MapSagaSteps steps f = map f steps"
proof -
  have "foldl (\<lambda>mapped step. mapped @ [f step]) acc steps = acc @ map f steps" for acc
    by (induction steps arbitrary: acc) simp_all
  then show ?thesis by (simp add: MapSagaSteps_def)
qed

section \<open>Facts about the parsers\<close>

lemma to_SagaStatus_string:
  "declared_status s \<Longrightarrow> to_SagaStatus (saga_status_string s) = s"
  by (cases s) (simp_all add: to_SagaStatus_def declared_status_def)

lemma to_SagaStepStatus_string:
  "declared_step_status s \<Longrightarrow> to_SagaStepStatus (step_status_string s) = s"
  by (cases s) (simp_all add: to_SagaStepStatus_def declared_step_status_def)

lemma ParseSagaStatus_declared: "ParseSagaStatus raw = Inr s \<Longrightarrow> declared_status s"
  by (auto simp: ParseSagaStatus_def declared_status_def Let_def split: SagaStatus.splits)

lemma ParseSagaStepStatus_declared: "ParseSagaStepStatus raw = Inr s \<Longrightarrow> declared_step_status s"
  by (auto simp: ParseSagaStepStatus_def declared_step_status_def Let_def split: SagaStepStatus.splits)




lemma ParseSagaContext_ok:
  "ParseSagaContext unmarshal raw = Inr c \<Longrightarrow>
   raw \<noteq> [] \<and> int (length raw) \<le> MaxSagaContextBytes \<and> unmarshal raw = Inr c \<and> c \<noteq> None"
  by (auto simp: ParseSagaContext_def split: if_splits sum.splits option.splits)

lemma ParseSagaContext_error:
  "ParseSagaContext unmarshal raw = Inl e \<Longrightarrow> errors_Is e (DomainErr ErrInvalidSagaContext)"
  by (auto simp: ParseSagaContext_def split: if_splits sum.splits option.splits)

section \<open>Properties\<close>

text \<open>C28. A saga status is accepted exactly in the spellings that trim and upper-case to the
  text of a declared status; the status parsed is that one, and no other is ever returned.\<close>

theorem saga_status_accepted_iff:
  "ParseSagaStatus raw = Inr s \<longleftrightarrow> declared_status s \<and> ToUpper (TrimSpace raw) = saga_status_string s"
proof
  assume p: "ParseSagaStatus raw = Inr s"
  have s: "s = to_SagaStatus (ToUpper (TrimSpace raw))"
    using p by (auto simp: ParseSagaStatus_def Let_def split: SagaStatus.splits)
  show "declared_status s \<and> ToUpper (TrimSpace raw) = saga_status_string s"
    using ParseSagaStatus_declared [OF p] unfolding s by (auto simp: to_SagaStatus_def)
next
  assume s: "declared_status s \<and> ToUpper (TrimSpace raw) = saga_status_string s"
  then show "ParseSagaStatus raw = Inr s"
    using to_SagaStatus_string [of s]
    by (cases s) (simp_all add: ParseSagaStatus_def)
qed



end
