(* ===== verification/Statemachine.thy ===== *)
theory Statemachine
  imports Domain
begin

text \<open>
  \<^verbatim>\<open>internal/statemachine\<close>: which saga status may follow which. The graph has no cycle but
  the reflexive steps, its sinks are COMPENSATED and FAILED, and COMPLETED, which
  \<^verbatim>\<open>IsTerminal\<close> also counts as terminal, can still be left towards CANCELING.
\<close>

definition CanTransition :: "SagaStatus \<Rightarrow> SagaStatus \<Rightarrow> bool" where
  "CanTransition from to =
     (if from = to then True
      else case from of
        SagaStatusCreated \<Rightarrow>
          to = SagaStatusRunning \<or> to = SagaStatusCanceling \<or> to = SagaStatusFailed
      | SagaStatusRunning \<Rightarrow>
          to = SagaStatusCompleted \<or> to = SagaStatusCanceling \<or> to = SagaStatusFailed
      | SagaStatusCompleted \<Rightarrow> to = SagaStatusCanceling
      | SagaStatusCanceling \<Rightarrow> to = SagaStatusCompensated \<or> to = SagaStatusFailed
      | _ \<Rightarrow> False)"

definition IsTerminal :: "SagaStatus \<Rightarrow> bool" where
  "IsTerminal status \<longleftrightarrow>
     status = SagaStatusCompleted \<or> status = SagaStatusCompensated \<or> status = SagaStatusFailed"

text \<open>Statuses joined by a chain of allowed transitions.\<close>

abbreviation transits :: "SagaStatus \<Rightarrow> SagaStatus \<Rightarrow> bool" where
  "transits \<equiv> CanTransition\<^sup>*\<^sup>*"

definition status_rank :: "SagaStatus \<Rightarrow> nat" where
  "status_rank s = (case s of
       SagaStatusCreated \<Rightarrow> 0 | SagaStatusRunning \<Rightarrow> 1 | SagaStatusCompleted \<Rightarrow> 2
     | SagaStatusCanceling \<Rightarrow> 3 | SagaStatusCompensated \<Rightarrow> 4 | SagaStatusFailed \<Rightarrow> 4
     | SagaStatusOther _ \<Rightarrow> 0)"

lemma CanTransition_refl [simp]: "CanTransition s s"
  by (simp add: CanTransition_def)

lemma CanTransition_table [simp]:
  "CanTransition SagaStatusCreated SagaStatusRunning"
  "CanTransition SagaStatusCreated SagaStatusCanceling"
  "CanTransition SagaStatusCreated SagaStatusFailed"
  "\<not> CanTransition SagaStatusCreated SagaStatusCompleted"
  "CanTransition SagaStatusRunning SagaStatusCompleted"
  "CanTransition SagaStatusRunning SagaStatusCanceling"
  "CanTransition SagaStatusRunning SagaStatusFailed"
  "CanTransition SagaStatusCompleted SagaStatusCanceling"
  "\<not> CanTransition SagaStatusCompleted SagaStatusFailed"
  "CanTransition SagaStatusCanceling SagaStatusCompensated"
  "CanTransition SagaStatusCanceling SagaStatusFailed"
  by (simp_all add: CanTransition_def)

lemma CanTransition_rank: "CanTransition s t \<Longrightarrow> s \<noteq> t \<Longrightarrow> status_rank s < status_rank t"
  by (cases s) (auto simp: CanTransition_def status_rank_def)

lemma transits_rank: "transits s t \<Longrightarrow> s = t \<or> status_rank s < status_rank t"
proof (induction rule: rtranclp_induct)
  case (step t u)
  then show ?case using CanTransition_rank [of t u] by (cases "t = u") auto
qed simp

lemma transits_antisym: "transits s t \<Longrightarrow> transits t s \<Longrightarrow> s = t"
  using transits_rank [of s t] transits_rank [of t s] by auto

lemma CanTransition_from_sink:
  "s = SagaStatusCompensated \<or> s = SagaStatusFailed \<Longrightarrow> CanTransition s t \<Longrightarrow> t = s"
  by (auto simp: CanTransition_def split: if_splits)

lemma transits_from_sink:
  "transits s t \<Longrightarrow> s = SagaStatusCompensated \<or> s = SagaStatusFailed \<Longrightarrow> t = s"
  by (induction rule: rtranclp_induct) (use CanTransition_from_sink in blast)+

lemma transits_declared: "transits s t \<Longrightarrow> declared_status s \<Longrightarrow> declared_status t"
proof (induction rule: rtranclp_induct)
  case (step t u)
  then show ?case
    by (cases t) (auto simp: CanTransition_def declared_status_def split: if_splits)
qed simp

section \<open>Properties\<close>

text \<open>C27. The status graph: a status that was left by allowed transitions is never entered again;
  nothing leaves COMPENSATED, FAILED and undeclared statuses; and COMPLETED is the one status that
  \<^verbatim>\<open>IsTerminal\<close> calls terminal and that can still be left.\<close>

theorem status_graph:
  "(transits s t \<and> transits t s \<longleftrightarrow> s = t)
   \<and> ((\<forall>u. CanTransition s u \<longleftrightarrow> u = s)
       \<longleftrightarrow> s = SagaStatusCompensated \<or> s = SagaStatusFailed \<or> s \<in> range SagaStatusOther)
   \<and> (IsTerminal s \<and> (\<exists>u. u \<noteq> s \<and> CanTransition s u) \<longleftrightarrow> s = SagaStatusCompleted)"
proof (intro conjI)
  show "transits s t \<and> transits t s \<longleftrightarrow> s = t" using transits_antisym by blast
  show "(\<forall>u. CanTransition s u \<longleftrightarrow> u = s)
       \<longleftrightarrow> s = SagaStatusCompensated \<or> s = SagaStatusFailed \<or> s \<in> range SagaStatusOther"
    by (cases s) (auto simp: CanTransition_def)
  show "IsTerminal s \<and> (\<exists>u. u \<noteq> s \<and> CanTransition s u) \<longleftrightarrow> s = SagaStatusCompleted"
    by (cases s) (auto simp: CanTransition_def IsTerminal_def)
qed

end
