(* ===== verification/Store_Spec.thy ===== *)
theory Store_Spec
  imports Statemachine
begin

text \<open>
  The interface between the service and its stores: the Go interfaces \<^verbatim>\<open>sagaStore\<close>
  (\<^verbatim>\<open>service.go\<close>) and \<^verbatim>\<open>stepQueueStore\<close> (\<^verbatim>\<open>step_runner.go\<close>) as a record of operations on a
  store state, the abstract rule for which step may be claimed, and the laws the clients rely
  on, as locales. Calls that read the clock take the instant as an argument.
\<close>

record 's sagaStore =
  store_Create :: "ctx \<Rightarrow> Saga \<Rightarrow> 's \<Rightarrow> error option \<times> 's"
  store_Get :: "ctx \<Rightarrow> string \<Rightarrow> 's \<Rightarrow> error + Saga"
  store_List :: "ctx \<Rightarrow> SagaStatus option \<Rightarrow> int \<Rightarrow> int \<Rightarrow> 's \<Rightarrow> error + Saga list"
  store_Update :: "ctx \<Rightarrow> time \<Rightarrow> string \<Rightarrow> (Saga \<Rightarrow> error + Saga) \<Rightarrow> 's \<Rightarrow> (error + Saga) \<times> 's"

record 's stepQueueStore = "'s sagaStore" +
  store_ClaimNextStep :: "ctx \<Rightarrow> time \<Rightarrow> duration \<Rightarrow> 's \<Rightarrow> (error + ClaimedSagaStep option) \<times> 's"

section \<open>Which step may be claimed\<close>

text \<open>A step that no longer needs a compensation.\<close>

definition settled :: "SagaStepStatus \<Rightarrow> bool" where
  "settled st \<longleftrightarrow> st \<noteq> SagaStepStatusCompleted \<and> st \<noteq> SagaStepStatusRunning
     \<and> st \<noteq> SagaStepStatusCompensating"

abbreviation status_at :: "Saga \<Rightarrow> nat \<Rightarrow> SagaStepStatus" where
  "status_at g i \<equiv> step_Status (Steps g ! i)"

definition exec_ready :: "Saga \<Rightarrow> nat \<Rightarrow> bool" where
  "exec_ready g k \<longleftrightarrow> k < length (Steps g) \<and> (\<forall>i < k. status_at g i = SagaStepStatusCompleted)
     \<and> (status_at g k = SagaStepStatusPending \<or> status_at g k = SagaStepStatusRunning)"

definition comp_ready :: "Saga \<Rightarrow> nat \<Rightarrow> bool" where
  "comp_ready g k \<longleftrightarrow> k < length (Steps g)
     \<and> (\<forall>i. k < i \<and> i < length (Steps g) \<longrightarrow> settled (status_at g i))
     \<and> \<not> settled (status_at g k)"

definition claimable :: "Saga \<Rightarrow> nat \<Rightarrow> bool" where
  "claimable g k \<longleftrightarrow>
     (Status g = SagaStatusCreated \<or> Status g = SagaStatusRunning) \<and> exec_ready g k
     \<or> Status g = SagaStatusCanceling \<and> comp_ready g k"

text \<open>
  A claimable step that is due: an execution that is pending or has run for the stale
  timeout, a compensation that has not begun or has run for the stale timeout.
\<close>

definition overdue :: "duration \<Rightarrow> time \<Rightarrow> SagaStep \<Rightarrow> bool" where
  "overdue staleAfter now st \<longleftrightarrow> (\<exists>t. StartedAt st = Some t \<and> staleAfter \<le> time_Sub now t)"

definition due :: "duration \<Rightarrow> time \<Rightarrow> Saga \<Rightarrow> nat \<Rightarrow> bool" where
  "due staleAfter now g k \<longleftrightarrow> claimable g k \<and>
     (if Status g = SagaStatusCanceling
      then status_at g k \<noteq> SagaStepStatusCompensating \<or> overdue staleAfter now (Steps g ! k)
      else status_at g k = SagaStepStatusPending \<or> overdue staleAfter now (Steps g ! k))"

definition claim_status :: "Saga \<Rightarrow> SagaStepStatus" where
  "claim_status g =
     (if Status g = SagaStatusCanceling then SagaStepStatusCompensating else SagaStepStatusRunning)"

text \<open>
  What a claim does to a saga, whichever store makes it: one claimable step gets the status
  of its phase and one more attempt, and its result fields are cleared; the instants are the
  store's choice.
\<close>

definition claim_effect :: "ClaimedSagaStep \<Rightarrow> Saga \<Rightarrow> Saga \<Rightarrow> bool" where
  "claim_effect c g g' \<longleftrightarrow> (\<exists>k t u.
     claimed_SagaID c = ID g \<and> claimed_StepIndex c = int k \<and> claimable g k
     \<and> claimed_Name c = step_Name (Steps g ! k) \<and> claimed_Attempt c = Attempt (Steps g ! k) + 1
     \<and> g' = g\<lparr>Steps := (Steps g)[k := (Steps g ! k)\<lparr>step_Status := claim_status g,
          Attempt := Attempt (Steps g ! k) + 1, StartedAt := Some t, FinishedAt := None,
          step_Error := ''''\<rparr>], UpdatedAt := u\<rparr>)"

text \<open>A step that is being executed or compensated says since when.\<close>

definition steps_started :: "Saga \<Rightarrow> bool" where
  "steps_started g \<longleftrightarrow> (\<forall>st \<in> set (Steps g).
     step_Status st = SagaStepStatusRunning \<or> step_Status st = SagaStepStatusCompensating \<longrightarrow> StartedAt st \<noteq> None)"

text \<open>What no operation on a stored saga changes.\<close>

definition saga_frame :: "Saga \<Rightarrow> Saga \<Rightarrow> bool" where
  "saga_frame g h \<longleftrightarrow> ID h = ID g \<and> Workflow h = Workflow g \<and> Context h = Context g
     \<and> CreatedAt h = CreatedAt g \<and> map step_Name (Steps h) = map step_Name (Steps g)
     \<and> map GRPCTarget (Steps h) = map GRPCTarget (Steps g)"

lemma saga_frame_refl [simp]: "saga_frame g g"
  by (simp add: saga_frame_def)

lemma saga_frame_trans [trans]: "saga_frame g h \<Longrightarrow> saga_frame h k \<Longrightarrow> saga_frame g k"
  by (simp add: saga_frame_def)

lemma saga_frame_length: "saga_frame g h \<Longrightarrow> length (Steps h) = length (Steps g)"
  unfolding saga_frame_def by (metis length_map)

lemma saga_frame_UpdatedAt [simp]: "saga_frame g (h\<lparr>UpdatedAt := t\<rparr>) = saga_frame g h"
  by (simp add: saga_frame_def)

section \<open>The laws of a store\<close>

text \<open>
  \<open>lookup s id\<close> is the saga a reader sees under \<open>id\<close>; \<open>keep g\<close> is what is seen of \<open>g\<close> once
  it has been stored, and \<open>fits g\<close> says that the store can represent \<open>g\<close> at all, which every
  saga of fewer than \<open>2 ^ 31\<close> steps does. The laws say what a call did when it returned,
  whatever it returned.
\<close>

locale saga_store =
  fixes ops :: "'s stepQueueStore"
    and lookup :: "'s \<Rightarrow> string \<Rightarrow> Saga option"
    and inv :: "'s \<Rightarrow> bool"
    and keep :: "Saga \<Rightarrow> Saga"
    and fits :: "Saga \<Rightarrow> bool"
  assumes lookup_ID: "inv s \<Longrightarrow> lookup s i = Some g \<Longrightarrow> ID g = i"
    and lookup_kept: "inv s \<Longrightarrow> lookup s i = Some g \<Longrightarrow> keep g = g"
    and keep_ID: "ID (keep g) = ID g"
    and keep_Workflow: "Workflow (keep g) = Workflow g"
    and keep_Status: "declared_status (Status g) \<Longrightarrow> Status (keep g) = Status g"
    and keep_frame: "keep g = g \<Longrightarrow> saga_frame g h \<Longrightarrow> saga_frame g (keep h)"
    and keep_Steps: "(\<And>x. x \<in> set (map step_Status (Steps g)) \<Longrightarrow> declared_step_status x) \<Longrightarrow>
      map step_Status (Steps (keep g)) = map step_Status (Steps g)"
    and create_ok: "inv s \<Longrightarrow> store_Create ops c g s = (None, s') \<Longrightarrow> fits g \<Longrightarrow>
      inv s' \<and> lookup s (ID g) = None \<and> lookup s' = (lookup s)(ID g \<mapsto> keep g)"
    and create_error: "inv s \<Longrightarrow> store_Create ops c g s = (Some e, s') \<Longrightarrow>
      inv s' \<and> lookup s' = lookup s"
    and create_exists: "inv s \<Longrightarrow> store_Create ops c g s = (Some e, s') \<Longrightarrow>
      errors_Is e (StoreErr ErrAlreadyExists) \<Longrightarrow> lookup s (ID g) \<noteq> None"
    and get_ok: "inv s \<Longrightarrow> store_Get ops c i s = Inr g \<Longrightarrow> lookup s i = Some g"
    and get_missing: "inv s \<Longrightarrow> store_Get ops c i s = Inl e \<Longrightarrow>
      errors_Is e (StoreErr ErrNotFound) \<Longrightarrow> lookup s i = None"
    and update_ok: "inv s \<Longrightarrow> store_Update ops c now i fn s = (Inr g', s') \<Longrightarrow>
      (\<And>g h. fn g = Inr h \<Longrightarrow> saga_frame g h) \<Longrightarrow>
      inv s' \<and> (\<exists>g h. lookup s i = Some g \<and> fn g = Inr h
        \<and> g' = Clone (h\<lparr>UpdatedAt := now\<rparr>) \<and> lookup s' = (lookup s)(i \<mapsto> keep (h\<lparr>UpdatedAt := now\<rparr>)))"
    and update_error: "inv s \<Longrightarrow> store_Update ops c now i fn s = (Inl e, s') \<Longrightarrow>
      inv s' \<and> lookup s' = lookup s"
    and claim_found: "inv s \<Longrightarrow> store_ClaimNextStep ops c now stale s = (Inr (Some d), s') \<Longrightarrow>
      inv s' \<and> (\<exists>g g'. lookup s (claimed_SagaID d) = Some g \<and> claim_effect d g g'
        \<and> lookup s' = (lookup s)(claimed_SagaID d \<mapsto> g'))"
    and claim_none: "inv s \<Longrightarrow> store_ClaimNextStep ops c now stale s = (Inr None, s') \<Longrightarrow>
      inv s' \<and> lookup s' = lookup s"
    and claim_error: "inv s \<Longrightarrow> store_ClaimNextStep ops c now stale s = (Inl e, s') \<Longrightarrow>
      inv s' \<and> lookup s' = lookup s"
    and keep_started: "(\<And>x. x \<in> set (map step_Status (Steps g)) \<Longrightarrow> declared_step_status x) \<Longrightarrow>
      steps_started g \<Longrightarrow> steps_started (keep g)"
    and fits_few: "int (length (Steps g)) < 2147483648 \<Longrightarrow> fits g"

text \<open>
  A store that never fails on a live context: creation depends on the identifier only, reads
  and updates on the saga's presence, and a claim finds a step whenever one is due.
\<close>

locale live_store = saga_store +
  assumes create_live: "inv s \<Longrightarrow> lookup s (ID g) = None \<Longrightarrow> fits g \<Longrightarrow> \<exists>s'. store_Create ops live g s = (None, s')"
    and create_live_exists: "inv s \<Longrightarrow> lookup s (ID g) \<noteq> None \<Longrightarrow>
      store_Create ops live g s = (Some (Sentinel (StoreErr ErrAlreadyExists)), s)"
    and get_live: "inv s \<Longrightarrow> lookup s i = Some g \<Longrightarrow> store_Get ops live i s = Inr g"
    and get_live_missing: "inv s \<Longrightarrow> lookup s i = None \<Longrightarrow>
      store_Get ops live i s = Inl (Sentinel (StoreErr ErrNotFound))"
    and update_live: "inv s \<Longrightarrow> lookup s i = Some g \<Longrightarrow> fn g = Inr h \<Longrightarrow>
      \<exists>s'. store_Update ops live now i fn s = (Inr (Clone (h\<lparr>UpdatedAt := now\<rparr>)), s')"
    and update_live_refused: "inv s \<Longrightarrow> lookup s i = Some g \<Longrightarrow> fn g = Inl e \<Longrightarrow>
      store_Update ops live now i fn s = (Inl e, s)"
    and update_live_missing: "inv s \<Longrightarrow> lookup s i = None \<Longrightarrow>
      store_Update ops live now i fn s = (Inl (Sentinel (StoreErr ErrNotFound)), s)"
    and claim_live: "inv s \<Longrightarrow> lookup s i = Some g \<Longrightarrow> due stale now g k \<Longrightarrow>
      \<exists>d s'. store_ClaimNextStep ops live now stale s = (Inr (Some d), s')"
    and claim_live_due: "inv s \<Longrightarrow> store_ClaimNextStep ops live now stale s = (Inr (Some d), s') \<Longrightarrow>
      \<exists>g k. lookup s (claimed_SagaID d) = Some g \<and> claimed_StepIndex d = int k \<and> due stale now g k"

section \<open>Claims\<close>

lemma claim_effectD:
  assumes "claim_effect c g g'"
  obtains k where "claimed_SagaID c = ID g" "claimed_StepIndex c = int k" "claimable g k"
    "k < length (Steps g)" "ID g' = ID g" "Status g' = Status g" "Workflow g' = Workflow g"
    "Context g' = Context g" "CreatedAt g' = CreatedAt g"
    "map step_Status (Steps g') = (map step_Status (Steps g))[k := claim_status g]"
    "map step_Name (Steps g') = map step_Name (Steps g)"
    "map GRPCTarget (Steps g') = map GRPCTarget (Steps g)"
proof -
  from assms obtain k t u where k: "claimed_SagaID c = ID g" "claimed_StepIndex c = int k" "claimable g k"
    and g': "g' = g\<lparr>Steps := (Steps g)[k := (Steps g ! k)\<lparr>step_Status := claim_status g,
          Attempt := Attempt (Steps g ! k) + 1, StartedAt := Some t, FinishedAt := None,
          step_Error := ''''\<rparr>], UpdatedAt := u\<rparr>"
    unfolding claim_effect_def by blast
  have "k < length (Steps g)" using k(3) by (auto simp: claimable_def exec_ready_def comp_ready_def)
  then show thesis by (intro that [OF k]) (simp_all add: g' map_update list_update_same_conv)
qed

lemma exec_ready_unique: "exec_ready g k \<Longrightarrow> exec_ready g l \<Longrightarrow> k = l"
  by (rule ccontr) (auto simp: exec_ready_def neq_iff)

lemma comp_ready_unique: "comp_ready g k \<Longrightarrow> comp_ready g l \<Longrightarrow> k = l"
  by (rule ccontr) (auto simp: comp_ready_def neq_iff)

lemma claimable_unique: "claimable g k \<Longrightarrow> claimable g l \<Longrightarrow> k = l"
  by (auto simp: claimable_def dest: exec_ready_unique comp_ready_unique)

text \<open>A saga with a step left to compensate has a last such step.\<close>

lemma comp_ready_ex:
  assumes "\<exists>st \<in> set (Steps g). \<not> settled (step_Status st)"
  shows "\<exists>k. comp_ready g k"
proof -
  let ?A = "{i. i < length (Steps g) \<and> \<not> settled (status_at g i)}"
  have fin: "finite ?A" by simp
  have ne: "?A \<noteq> {}" using assms by (auto simp: in_set_conv_nth)
  have "Max ?A \<in> ?A" using fin ne by (rule Max_in)
  moreover have "i \<notin> ?A" if "Max ?A < i" for i using Max_ge [OF fin, of i] that by fastforce
  ultimately show ?thesis unfolding comp_ready_def by blast
qed

end
