(* ===== verification/Saga_Inv.thy ===== *)
theory Saga_Inv
  imports Store_Spec
begin

text \<open>
  The well-formedness of a saga: how its status and the statuses of its steps fit together.
  It is stated on the list of step statuses, which every store keeps, and it is what the
  service, the claims and the step runner preserve. While a saga executes, its steps are a
  completed prefix, one step that is pending or running, and a pending rest; the other
  statuses say what has become of all the steps.
\<close>

definition exec_shape :: "nat \<Rightarrow> SagaStepStatus list \<Rightarrow> bool" where
  "exec_shape k xs \<longleftrightarrow> k < length xs
     \<and> (\<forall>i < k. xs ! i = SagaStepStatusCompleted)
     \<and> (xs ! k = SagaStepStatusPending \<or> xs ! k = SagaStepStatusRunning)
     \<and> (\<forall>i < length xs. k < i \<longrightarrow> xs ! i = SagaStepStatusPending)"

definition in_compensation :: "SagaStepStatus \<Rightarrow> bool" where
  "in_compensation st \<longleftrightarrow> st = SagaStepStatusCompensated \<or> \<not> settled st"

definition saga_shape :: "SagaStatus \<Rightarrow> SagaStepStatus list \<Rightarrow> bool" where
  "saga_shape status xs = (case status of
       SagaStatusCreated \<Rightarrow> exec_shape 0 xs
     | SagaStatusRunning \<Rightarrow> (\<exists>k < length xs. 0 < k \<and> exec_shape k xs)
     | SagaStatusCompleted \<Rightarrow> xs \<noteq> [] \<and> (\<forall>x \<in> set xs. x = SagaStepStatusCompleted)
     | SagaStatusCanceling \<Rightarrow> (\<forall>x \<in> set xs. in_compensation x) \<and> (\<exists>x \<in> set xs. \<not> settled x)
     | SagaStatusCompensated \<Rightarrow> xs \<noteq> [] \<and> (\<forall>x \<in> set xs. x = SagaStepStatusCompensated)
     | SagaStatusFailed \<Rightarrow>
         SagaStepStatusFailed \<in> set xs \<and> (\<forall>x \<in> set xs. declared_step_status x)
     | SagaStatusOther _ \<Rightarrow> False)"

definition saga_ok :: "Saga \<Rightarrow> bool" where
  "saga_ok g \<longleftrightarrow> saga_shape (Status g) (map step_Status (Steps g))"

section \<open>Consequences\<close>

lemma saga_shape_simps [simp]:
  "saga_shape SagaStatusCreated xs = exec_shape 0 xs"
  "saga_shape SagaStatusRunning xs = (\<exists>k < length xs. 0 < k \<and> exec_shape k xs)"
  "saga_shape SagaStatusCompleted xs = (xs \<noteq> [] \<and> (\<forall>x \<in> set xs. x = SagaStepStatusCompleted))"
  "saga_shape SagaStatusCanceling xs = ((\<forall>x \<in> set xs. in_compensation x) \<and> (\<exists>x \<in> set xs. \<not> settled x))"
  "saga_shape SagaStatusCompensated xs = (xs \<noteq> [] \<and> (\<forall>x \<in> set xs. x = SagaStepStatusCompensated))"
  "saga_shape SagaStatusFailed xs =
     (SagaStepStatusFailed \<in> set xs \<and> (\<forall>x \<in> set xs. declared_step_status x))"
  "\<not> saga_shape (SagaStatusOther z) xs"
  by (simp_all add: saga_shape_def)

lemma exec_shape_declared: "exec_shape k xs \<Longrightarrow> x \<in> set xs \<Longrightarrow> declared_step_status x \<and> x \<noteq> SagaStepStatusFailed"
proof -
  assume s: "exec_shape k xs" and "x \<in> set xs"
  then obtain i where "i < length xs" "x = xs ! i" by (auto simp: in_set_conv_nth)
  then show ?thesis
    using s by (cases i k rule: linorder_cases) (auto simp: exec_shape_def declared_step_status_def)
qed

lemma in_compensation_declared: "in_compensation x \<Longrightarrow> declared_step_status x \<and> x \<noteq> SagaStepStatusFailed \<and> x \<noteq> SagaStepStatusPending"
  by (auto simp: in_compensation_def settled_def declared_step_status_def)

lemma saga_shape_declared:
  assumes "saga_shape st xs"
  shows "declared_status st" and "x \<in> set xs \<Longrightarrow> declared_step_status x"
proof -
  show "declared_status st" using assms by (cases st) auto
  show "declared_step_status x" if "x \<in> set xs"
    using assms that
    by (cases st) (auto dest: exec_shape_declared in_compensation_declared)
qed

lemma saga_shape_nonempty: "saga_shape st xs \<Longrightarrow> xs \<noteq> []"
  by (cases st) (auto simp: exec_shape_def)

text \<open>FAILED is exactly "some step failed".\<close>

lemma saga_shape_failed_iff:
  assumes "saga_shape st xs"
  shows "st = SagaStatusFailed \<longleftrightarrow> SagaStepStatusFailed \<in> set xs"
  using assms
  by (cases st) (auto dest: exec_shape_declared in_compensation_declared)

lemma saga_shape_compensated_iff:
  assumes "saga_shape st xs"
  shows "st = SagaStatusCompensated \<longleftrightarrow> (\<forall>x \<in> set xs. x = SagaStepStatusCompensated)"
proof -
  have "\<exists>x \<in> set xs. x \<noteq> SagaStepStatusCompensated" if "st \<noteq> SagaStatusCompensated"
  proof -
    consider k where "exec_shape k xs" | "xs \<noteq> []" "\<forall>x \<in> set xs. x = SagaStepStatusCompleted"
      | "\<exists>x \<in> set xs. \<not> settled x" | "SagaStepStatusFailed \<in> set xs"
      using assms \<open>st \<noteq> SagaStatusCompensated\<close> by (cases st) auto
    then show ?thesis
    proof cases
      case (1 k)
      then have "xs ! k \<in> set xs" "xs ! k \<noteq> SagaStepStatusCompensated" by (auto simp: exec_shape_def)
      then show ?thesis by blast
    next
      case 2
      then show ?thesis by (cases xs) auto
    qed (auto simp: settled_def)
  qed
  then show ?thesis using assms by auto
qed

lemma exec_shape_unique: "exec_shape k xs \<Longrightarrow> exec_shape l xs \<Longrightarrow> k = l"
  by (rule ccontr) (auto simp: exec_shape_def neq_iff)

section \<open>A fresh saga\<close>

lemma fresh_shape: "0 < n \<Longrightarrow> saga_shape SagaStatusCreated (replicate n SagaStepStatusPending)"
  by (simp add: exec_shape_def)

section \<open>A claim\<close>

lemma exec_shape_claim: "exec_shape k xs \<Longrightarrow> exec_shape k (xs[k := SagaStepStatusRunning])"
  by (auto simp: exec_shape_def nth_list_update)

lemma exec_ready_shape:
  assumes "exec_ready g k" and "exec_shape l (map step_Status (Steps g))"
  shows "k = l"
  using assms
  by (cases k l rule: linorder_cases) (auto simp: exec_ready_def exec_shape_def)

lemma canceling_update:
  assumes "saga_shape SagaStatusCanceling xs" and "k < length xs" and "\<not> settled x"
  shows "saga_shape SagaStatusCanceling (xs[k := x])"
proof -
  have "\<forall>y \<in> set (xs[k := x]). in_compensation y"
    using assms(1,3) by (intro all_set_list_updateI) (auto simp: in_compensation_def)
  then show ?thesis using assms(3) set_update_memI [OF assms(2), of x] by auto
qed

lemma claim_shape:
  assumes "saga_ok g" and "claimable g k"
  shows "saga_shape (Status g) ((map step_Status (Steps g))[k := claim_status g])"
proof (cases "Status g = SagaStatusCanceling")
  case True
  then have "k < length (map step_Status (Steps g))" using assms(2) by (simp add: claimable_def comp_ready_def)
  then show ?thesis
    using canceling_update [of "map step_Status (Steps g)" k "claim_status g"] assms(1) True
    by (simp add: saga_ok_def claim_status_def settled_def)
next
  case False
  then have r: "exec_ready g k" "Status g = SagaStatusCreated \<or> Status g = SagaStatusRunning"
    using assms(2) by (auto simp: claimable_def)
  obtain l where l: "exec_shape l (map step_Status (Steps g))" "Status g = SagaStatusCreated \<longleftrightarrow> l = 0"
    using assms(1) r(2) by (auto simp: saga_ok_def)
  have "l = k" using exec_ready_shape [OF r(1) l(1)] by simp
  then have e: "exec_shape l ((map step_Status (Steps g))[k := claim_status g])"
    using exec_shape_claim [OF l(1)] False by (simp add: claim_status_def)
  moreover from e have "l < length ((map step_Status (Steps g))[k := claim_status g])"
    by (simp only: exec_shape_def)
  ultimately show ?thesis using r(2) l(2) by auto
qed

lemma claim_effect_ok:
  assumes "claim_effect c g g'" and "saga_ok g"
  shows "saga_ok g'"
  using assms(1)
proof (rule claim_effectD)
  fix k assume "claimable g k" "Status g' = Status g"
    "map step_Status (Steps g') = (map step_Status (Steps g))[k := claim_status g]"
  then show ?thesis using claim_shape [OF assms(2), of k] by (simp add: saga_ok_def)
qed

section \<open>The end of a step\<close>

text \<open>The step that was being executed completes: the next one is to be executed, or all are done.\<close>

lemma exec_complete:
  assumes "exec_shape k xs"
  shows "if Suc k < length xs then exec_shape (Suc k) (xs[k := SagaStepStatusCompleted])
    else \<forall>x \<in> set (xs[k := SagaStepStatusCompleted]). x = SagaStepStatusCompleted"
  using assms
  by (auto simp: exec_shape_def nth_list_update in_set_conv_nth less_Suc_eq)

text \<open>A step of a well-formed saga fails.\<close>

lemma fail_shape:
  assumes "saga_shape st xs" and "k < length xs"
  shows "saga_shape SagaStatusFailed (xs[k := SagaStepStatusFailed])"
proof -
  have "\<forall>x \<in> set (xs[k := SagaStepStatusFailed]). declared_step_status x"
    by (intro all_set_list_updateI) (auto dest: saga_shape_declared(2) [OF assms(1)])
  then show ?thesis using set_update_memI [OF assms(2)] by simp
qed

lemma failed_update:
  assumes "saga_shape SagaStatusFailed xs" and "declared_step_status x" and "xs ! k \<noteq> SagaStepStatusFailed"
  shows "saga_shape SagaStatusFailed (xs[k := x])"
proof -
  obtain i where "i < length xs" "xs ! i = SagaStepStatusFailed"
    using assms(1) by (auto simp: in_set_conv_nth)
  then have "SagaStepStatusFailed \<in> set (xs[k := x])"
    using assms(3) by (metis length_list_update nth_list_update_neq nth_mem)
  moreover have "\<forall>y \<in> set (xs[k := x]). declared_step_status y"
    using assms(1,2) by (intro all_set_list_updateI) auto
  ultimately show ?thesis by simp
qed

lemma compensation_success:
  assumes "saga_shape SagaStatusCanceling xs" and "k < length xs"
  shows "if \<exists>x \<in> set (xs[k := SagaStepStatusCompensated]). \<not> settled x
    then saga_shape SagaStatusCanceling (xs[k := SagaStepStatusCompensated])
    else saga_shape SagaStatusCompensated (xs[k := SagaStepStatusCompensated])"
proof -
  have "\<forall>x \<in> set (xs[k := SagaStepStatusCompensated]). in_compensation x"
    using assms(1) by (intro all_set_list_updateI) (auto simp: in_compensation_def)
  then show ?thesis using assms(2) by (auto simp: in_compensation_def)
qed

section \<open>Cancelling\<close>

text \<open>Pending steps are marked compensated; then some step is left to compensate or none is.\<close>

definition cancel_status :: "SagaStepStatus \<Rightarrow> SagaStepStatus" where
  "cancel_status st = (if st = SagaStepStatusPending then SagaStepStatusCompensated else st)"

lemma cancel_shape:
  assumes "saga_shape st xs"
    and "st = SagaStatusCreated \<or> st = SagaStatusRunning \<or> st = SagaStatusCompleted \<or> st = SagaStatusCanceling"
  shows "\<forall>x \<in> set (map cancel_status xs). in_compensation x"
proof -
  have "in_compensation (cancel_status x)" if "x \<in> set xs" for x
  proof -
    from assms(2) consider k where "exec_shape k xs" | "\<forall>x \<in> set xs. in_compensation x"
      using assms(1) by (auto simp: in_compensation_def settled_def)
    then show ?thesis
    proof cases
      case 1
      obtain i where "i < length xs" "x = xs ! i" using \<open>x \<in> set xs\<close> by (auto simp: in_set_conv_nth)
      then show ?thesis
        using 1 by (cases i k rule: linorder_cases)
          (auto simp: exec_shape_def cancel_status_def in_compensation_def settled_def)
    next
      case 2
      then show ?thesis using that by (auto simp: cancel_status_def in_compensation_def)
    qed
  qed
  then show ?thesis by simp
qed

section \<open>Progress of a saga\<close>

text \<open>
  What every operation on a stored saga respects: its identity, the transitions of the state
  machine, and that a step that has been started never becomes pending again.
\<close>

definition saga_progress :: "Saga \<Rightarrow> Saga \<Rightarrow> bool" where
  "saga_progress g h \<longleftrightarrow> saga_frame g h \<and> transits (Status g) (Status h)
     \<and> (\<forall>i < length (Steps g). status_at g i \<noteq> SagaStepStatusPending \<longrightarrow> status_at h i \<noteq> SagaStepStatusPending)"

lemma saga_progress_refl [simp]: "saga_progress g g"
  by (simp add: saga_progress_def)

lemma saga_progress_trans: "saga_progress g h \<Longrightarrow> saga_progress h k \<Longrightarrow> saga_progress g k"
  unfolding saga_progress_def
  by (auto intro: saga_frame_trans dest: saga_frame_length)

lemma status_at_map: "i < length (Steps g) \<Longrightarrow> status_at g i = map step_Status (Steps g) ! i"
  by simp

lemma saga_progressI:
  assumes "saga_frame g h" and "transits (Status g) (Status h)"
    and "\<And>i. i < length (Steps g) \<Longrightarrow> map step_Status (Steps g) ! i \<noteq> SagaStepStatusPending \<Longrightarrow>
      map step_Status (Steps h) ! i \<noteq> SagaStepStatusPending"
  shows "saga_progress g h"
  using assms saga_frame_length [OF assms(1)] by (simp add: saga_progress_def)

lemma claim_effect_progress:
  assumes "claim_effect c g g'"
  shows "saga_progress g g'"
  using assms
proof (rule claim_effectD)
  fix k assume k: "k < length (Steps g)" "ID g' = ID g" "Status g' = Status g" "Workflow g' = Workflow g"
    "Context g' = Context g" "CreatedAt g' = CreatedAt g"
    "map step_Status (Steps g') = (map step_Status (Steps g))[k := claim_status g]"
    "map step_Name (Steps g') = map step_Name (Steps g)"
    "map GRPCTarget (Steps g') = map GRPCTarget (Steps g)"
  show ?thesis
  proof (rule saga_progressI)
    show "saga_frame g g'" using k by (simp add: saga_frame_def)
    show "transits (Status g) (Status g')" by (simp add: k)
  qed (use k(1) in \<open>auto simp: k(7) nth_list_update claim_status_def split: if_splits\<close>)
qed

lemma cancel_status_pending: "cancel_status x \<noteq> SagaStepStatusPending"
  by (simp add: cancel_status_def)

section \<open>Well-formed and timed\<close>

text \<open>What every stored saga satisfies: its shape, and a start instant on every step under way.\<close>

definition saga_good :: "Saga \<Rightarrow> bool" where
  "saga_good g \<longleftrightarrow> saga_ok g \<and> steps_started g"

lemma steps_started_write:
  assumes "steps_started g" and "StartedAt st \<noteq> None
    \<or> step_Status st \<noteq> SagaStepStatusRunning \<and> step_Status st \<noteq> SagaStepStatusCompensating"
  shows "steps_started (g\<lparr>Steps := (Steps g)[k := st]\<rparr>)"
  using assms by (auto simp: steps_started_def dest!: set_update_subset_insert [THEN subsetD])

lemma steps_started_simps [simp]:
  "steps_started (g\<lparr>UpdatedAt := t\<rparr>) = steps_started g"
  "steps_started (g\<lparr>Status := x\<rparr>) = steps_started g"
  by (simp_all add: steps_started_def)

lemma claim_effect_good:
  assumes "claim_effect c g g'" and "saga_good g"
  shows "saga_good g'"
proof -
  have "steps_started g'"
    using assms by (auto simp: claim_effect_def saga_good_def intro!: steps_started_write)
  then show ?thesis using assms claim_effect_ok [OF assms(1)] by (simp add: saga_good_def)
qed

lemma saga_good_ok: "saga_good g \<Longrightarrow> saga_ok g"
  by (simp add: saga_good_def)

lemma saga_good_UpdatedAt [simp]: "saga_good (g\<lparr>UpdatedAt := t\<rparr>) = saga_good g"
  by (simp add: saga_good_def saga_ok_def)

end
