(* ===== verification/Service.thy ===== *)
theory Service
  imports Saga_Locker Saga_Inv
begin

text \<open>
  \<^verbatim>\<open>internal/service/service.go\<close> and \<^verbatim>\<open>map.go\<close>: starting, reading, cancelling and listing
  sagas over any store. The store is an argument (\<open>None\<close> for a nil interface), as are the
  clock, the outcome of \<^verbatim>\<open>rand.Read\<close> and \<^verbatim>\<open>json.Unmarshal\<close>. The lemmas about the handlers are
  proved once in the locale of the store laws.
\<close>

record StartSagaStep =
  start_Name :: string
  start_GRPCTarget :: string

definition MapStartSagaSteps :: "'a list \<Rightarrow> ('a \<Rightarrow> StartSagaStep) \<Rightarrow> StartSagaStep list" where
  "MapStartSagaSteps steps mapper = foldl (\<lambda>mapped step. mapped @ [mapper step]) [] steps"

section \<open>Validation\<close>

definition defaultPageLimit :: int where "defaultPageLimit = 50"

definition maxPageLimit :: int where "maxPageLimit = 200"

definition validatePage :: "int \<Rightarrow> int \<Rightarrow> error + int \<times> int" where
  "validatePage limit offset =
     (if offset < 0 then Inl (Sentinel (ServiceErr ErrInvalidPagination))
      else if limit < 0 then Inl (Sentinel (ServiceErr ErrInvalidPagination))
      else
        let limit = (if limit = 0 then defaultPageLimit else limit);
            limit = (if limit > maxPageLimit then maxPageLimit else limit)
        in Inr (limit, offset))"

fun validateStartSagaSteps_loop :: "StartSagaStep list \<Rightarrow> SagaStep list \<Rightarrow> error + SagaStep list" where
  "validateStartSagaSteps_loop [] steps = Inr steps"
| "validateStartSagaSteps_loop (requestedStep # rest) steps =
     (if start_Name requestedStep = '''' then Inl (Sentinel (ServiceErr ErrInvalidStepName))
      else if start_GRPCTarget requestedStep = '''' then Inl (Sentinel (ServiceErr ErrInvalidStepGRPCTarget))
      else validateStartSagaSteps_loop rest
        (steps @ [\<lparr>step_Name = start_Name requestedStep, GRPCTarget = start_GRPCTarget requestedStep,
           step_Status = SagaStepStatusPending, Attempt = 0, StartedAt = None, FinishedAt = None,
           step_Error = ''''\<rparr>]))"

definition validateStartSagaSteps :: "StartSagaStep list \<Rightarrow> error + SagaStep list" where
  "validateStartSagaSteps requested =
     (if length requested = 0 then Inl (Sentinel (ServiceErr ErrStepsRequired))
      else validateStartSagaSteps_loop requested [])"

definition parseContext :: "(byte list \<Rightarrow> error + context_map) \<Rightarrow> byte list \<Rightarrow> error + context_map" where
  "parseContext unmarshal rawContext =
     (case ParseSagaContext unmarshal rawContext of
        Inl err \<Rightarrow> Inl (wrap_cause (ServiceErr ErrInvalidContext) err)
      | Inr parsed \<Rightarrow> Inr parsed)"

section \<open>Identifiers\<close>

definition generateSagaIDFromIdempotencyKey :: "string \<Rightarrow> string" where
  "generateSagaIDFromIdempotencyKey idempotencyKey =
     (let hash = Sum256 idempotencyKey in EncodeToString (take 16 hash))"

text \<open>\<open>randRead\<close> is the outcome of \<^verbatim>\<open>rand.Read\<close>: an error, or the 16 bytes it put in the buffer.\<close>

definition generateSagaID :: "error + byte list \<Rightarrow> string \<Rightarrow> error + string" where
  "generateSagaID randRead idempotencyKey =
     (if idempotencyKey \<noteq> '''' then Inr (generateSagaIDFromIdempotencyKey idempotencyKey)
      else case randRead of Inl err \<Rightarrow> Inl err | Inr buffer \<Rightarrow> Inr (EncodeToString buffer))"

section \<open>Errors of the store\<close>

definition mapStoreError :: "error \<Rightarrow> error" where
  "mapStoreError err =
     (if errors_Is err (StoreErr ErrNotFound) then Sentinel (ServiceErr ErrSagaNotFound)
      else if errors_Is err (LockErr ErrLockContended) then Sentinel (ServiceErr ErrSagaLockContended)
      else if errors_Is err (StoreErr ErrStorePagination) then Sentinel (ServiceErr ErrInvalidPagination)
      else err)"

section \<open>Starting a saga\<close>

text \<open>\<open>ctx\<close> is the request context at the creation, \<open>ctx'\<close> at the read that may follow it.\<close>

definition StartSagaWithIdempotencyKey ::
  "('s, 'z) sagaStore_scheme option \<Rightarrow> (byte list \<Rightarrow> error + context_map) \<Rightarrow> error + byte list
   \<Rightarrow> time \<Rightarrow> ctx \<Rightarrow> ctx \<Rightarrow> string \<Rightarrow> string \<Rightarrow> byte list \<Rightarrow> StartSagaStep list \<Rightarrow> 's
   \<Rightarrow> (error + string) \<times> 's" where
  "StartSagaWithIdempotencyKey store unmarshal randRead now ctx ctx' workflow idempotencyKey rawContext steps s =
     (case store of
        None \<Rightarrow> (Inl (Sentinel (ServiceErr ErrStoreNotConfigured)), s)
      | Some st \<Rightarrow>
        if workflow = '''' then (Inl (Sentinel (ServiceErr ErrInvalidWorkflow)), s)
        else case parseContext unmarshal rawContext of
          Inl err \<Rightarrow> (Inl err, s)
        | Inr sagaContext \<Rightarrow>
          (case validateStartSagaSteps steps of
             Inl err \<Rightarrow> (Inl err, s)
           | Inr sagaSteps \<Rightarrow>
             let normalizedIdempotencyKey = TrimSpace idempotencyKey
             in case generateSagaID randRead normalizedIdempotencyKey of
                  Inl err \<Rightarrow> (Inl err, s)
                | Inr sagaID \<Rightarrow>
                  let saga = \<lparr>ID = sagaID, Workflow = workflow, Status = SagaStatusCreated,
                        Context = sagaContext, Steps = sagaSteps, CreatedAt = now, UpdatedAt = now\<rparr>
                  in case store_Create st ctx saga s of
                       (Some createErr, s') \<Rightarrow>
                         if normalizedIdempotencyKey \<noteq> '''' \<and> errors_Is createErr (StoreErr ErrAlreadyExists)
                         then (case store_Get st ctx' sagaID s' of
                                 Inl getErr \<Rightarrow> (Inl (mapStoreError getErr), s')
                               | Inr existingSaga \<Rightarrow> (Inr (ID existingSaga), s'))
                         else (Inl createErr, s')
                     | (None, s') \<Rightarrow> (Inr sagaID, s')))"

definition StartSaga ::
  "('s, 'z) sagaStore_scheme option \<Rightarrow> (byte list \<Rightarrow> error + context_map) \<Rightarrow> error + byte list
   \<Rightarrow> time \<Rightarrow> ctx \<Rightarrow> ctx \<Rightarrow> string \<Rightarrow> byte list \<Rightarrow> StartSagaStep list \<Rightarrow> 's \<Rightarrow> (error + string) \<times> 's" where
  "StartSaga store unmarshal randRead now ctx ctx' workflow rawContext steps s =
     StartSagaWithIdempotencyKey store unmarshal randRead now ctx ctx' workflow '''' rawContext steps s"

section \<open>Reading sagas\<close>

definition GetSaga :: "('s, 'z) sagaStore_scheme option \<Rightarrow> ctx \<Rightarrow> string \<Rightarrow> 's \<Rightarrow> error + Saga" where
  "GetSaga store ctx sagaID s =
     (case store of
        None \<Rightarrow> Inl (Sentinel (ServiceErr ErrStoreNotConfigured))
      | Some st \<Rightarrow> (case store_Get st ctx sagaID s of
            Inl err \<Rightarrow> Inl (mapStoreError err)
          | Inr saga \<Rightarrow> Inr saga))"

definition ListSagas ::
  "('s, 'z) sagaStore_scheme option \<Rightarrow> ctx \<Rightarrow> string \<Rightarrow> int \<Rightarrow> int \<Rightarrow> 's \<Rightarrow> error + Saga list" where
  "ListSagas store ctx status limit offset s =
     (case store of
        None \<Rightarrow> Inl (Sentinel (ServiceErr ErrStoreNotConfigured))
      | Some st \<Rightarrow>
        (case validatePage limit offset of
           Inl err \<Rightarrow> Inl err
         | Inr (normalizedLimit, normalizedOffset) \<Rightarrow>
             let normalizedStatus = TrimSpace status
             in if normalizedStatus = '''' then store_List st ctx None normalizedLimit normalizedOffset s
                else case ParseSagaStatus normalizedStatus of
                  Inl _ \<Rightarrow> Inl (Sentinel (ServiceErr ErrInvalidStatusFilter))
                | Inr parsedStatus \<Rightarrow>
                    store_List st ctx (Some parsedStatus) normalizedLimit normalizedOffset s))"

section \<open>Cancelling\<close>

fun hasFailedStep :: "SagaStep list \<Rightarrow> bool" where
  "hasFailedStep [] = False"
| "hasFailedStep (step # rest) =
     (if step_Status step = SagaStepStatusFailed then True else hasFailedStep rest)"

fun hasPendingCompensationSteps :: "SagaStep list \<Rightarrow> bool" where
  "hasPendingCompensationSteps [] = False"
| "hasPendingCompensationSteps (step # rest) =
     (if step_Status step = SagaStepStatusCompleted \<or> step_Status step = SagaStepStatusRunning
         \<or> step_Status step = SagaStepStatusCompensating
      then True else hasPendingCompensationSteps rest)"

definition cancelPendingStep :: "time \<Rightarrow> SagaStep \<Rightarrow> SagaStep" where
  "cancelPendingStep now step =
     (if step_Status step \<noteq> SagaStepStatusPending then step
      else step\<lparr>step_Status := SagaStepStatusCompensated, FinishedAt := Some now, step_Error := ''''\<rparr>)"

definition normalizeSagaForCancellation :: "time \<Rightarrow> Saga \<Rightarrow> Saga" where
  "normalizeSagaForCancellation now candidate =
     (let candidate = candidate\<lparr>Steps := map (cancelPendingStep now) (Steps candidate)\<rparr>
      in if Status candidate \<noteq> SagaStatusCanceling then candidate
         else if hasFailedStep (Steps candidate) then
           (if CanTransition (Status candidate) SagaStatusFailed
            then candidate\<lparr>Status := SagaStatusFailed\<rparr> else candidate)
         else if \<not> hasPendingCompensationSteps (Steps candidate)
                 \<and> CanTransition (Status candidate) SagaStatusCompensated
         then candidate\<lparr>Status := SagaStatusCompensated\<rparr>
         else candidate)"

text \<open>The function that \<^verbatim>\<open>CancelSaga\<close> passes to the store's \<^verbatim>\<open>Update\<close>.\<close>

definition cancelCandidate :: "time \<Rightarrow> Saga \<Rightarrow> error + Saga" where
  "cancelCandidate now candidate =
     (if Status candidate = SagaStatusCreated \<or> Status candidate = SagaStatusRunning
         \<or> Status candidate = SagaStatusCompleted \<or> Status candidate = SagaStatusCanceling
      then
        (if Status candidate \<noteq> SagaStatusCanceling then
           (if \<not> CanTransition (Status candidate) SagaStatusCanceling then Inr candidate
            else Inr (normalizeSagaForCancellation now (candidate\<lparr>Status := SagaStatusCanceling\<rparr>)))
         else Inr (normalizeSagaForCancellation now candidate))
      else if Status candidate = SagaStatusCompensated then Inr candidate
      else if Status candidate = SagaStatusFailed then Inl (Sentinel (ServiceErr ErrSagaCancelNotAllowed))
      else Inr candidate)"

text \<open>\<^verbatim>\<open>domain.Saga{}\<close>; the zero instant is the first of January of the year 1.\<close>

definition zeroSaga :: Saga where
  "zeroSaga = \<lparr>ID = '''', Workflow = '''', Status = SagaStatusOther '''', Context = None, Steps = [],
     CreatedAt = -62135596800000000000, UpdatedAt = -62135596800000000000\<rparr>"

text \<open>
  The result carries the saga that \<^verbatim>\<open>Update\<close> returned; the error of the locked section decides
  first. \<open>stepNow\<close> is the clock in \<^verbatim>\<open>normalizeSagaForCancellation\<close>, \<open>now\<close> the one in \<^verbatim>\<open>Update\<close>.
\<close>

definition CancelSaga ::
  "('s, 'z) sagaStore_scheme option \<Rightarrow> ('l, 'h) sagaLocker \<Rightarrow> time \<Rightarrow> time option \<Rightarrow> ctx
   \<Rightarrow> watchdog_event list \<Rightarrow> ctx \<Rightarrow> time \<Rightarrow> time \<Rightarrow> string \<Rightarrow> 'l \<Rightarrow> 's
   \<Rightarrow> (error + Saga) \<times> 'l \<times> 's" where
  "CancelSaga store sl lockNow deadline requestErr evs lockCtx stepNow now sagaID l s =
     (case store of
        None \<Rightarrow> (Inl (Sentinel (ServiceErr ErrStoreNotConfigured)), l, s)
      | Some st \<Rightarrow>
        let fn = (\<lambda>(s, _). case store_Update st lockCtx now sagaID (cancelCandidate stepNow) s of
                    (Inl updateErr, s') \<Rightarrow> (Some updateErr, s', None)
                  | (Inr updatedSaga, s') \<Rightarrow> (None, s', Some updatedSaga))
        in case withSagaLock sl lockNow deadline requestErr evs sagaID fn l (s, None) of
             (Some err, l', (s', _)) \<Rightarrow> (Inl (mapStoreError err), l', s')
           | (None, l', (s', Some saga)) \<Rightarrow> (Inr saga, l', s')
           | (None, l', (s', None)) \<Rightarrow>
               (Inr zeroSaga, l', s'))"

section \<open>The service\<close>

definition New ::
  "('s, 'z) sagaStore_scheme option \<Rightarrow> 'h \<Rightarrow> ('l, 'h) Locker option \<Rightarrow> duration
   \<Rightarrow> error + ('s, 'z) sagaStore_scheme option \<times> ('l, 'h) sagaLocker" where
  "New store noopHandle lkr ttl =
     (if ttl \<le> 0 then Inl (Sentinel (RedisErr ErrInvalidTTL))
      else Inr (store, newSagaLocker noopHandle lkr ttl))"

section \<open>Facts about validation\<close>

lemma MapStartSagaSteps_map: "MapStartSagaSteps steps f = map f steps"
proof -
  have "foldl (\<lambda>mapped step. mapped @ [f step]) acc steps = acc @ map f steps" for acc
    by (induction steps arbitrary: acc) simp_all
  then show ?thesis by (simp add: MapStartSagaSteps_def)
qed

lemma validatePage_ok:
  "validatePage limit offset = Inr (l, p) \<Longrightarrow> 1 \<le> l \<and> l \<le> 200 \<and> 0 \<le> p \<and> p = offset"
  by (auto simp: validatePage_def defaultPageLimit_def maxPageLimit_def Let_def split: if_splits)

lemma validatePage_error:
  "validatePage limit offset = Inl e \<longleftrightarrow>
   (limit < 0 \<or> offset < 0) \<and> e = Sentinel (ServiceErr ErrInvalidPagination)"
  by (auto simp: validatePage_def Let_def)

text \<open>The steps a new saga starts with.\<close>

definition fresh_step :: "StartSagaStep \<Rightarrow> SagaStep" where
  "fresh_step r = \<lparr>step_Name = start_Name r, GRPCTarget = start_GRPCTarget r,
     step_Status = SagaStepStatusPending, Attempt = 0, StartedAt = None, FinishedAt = None,
     step_Error = ''''\<rparr>"

definition valid_step :: "StartSagaStep \<Rightarrow> bool" where
  "valid_step r \<longleftrightarrow> start_Name r \<noteq> '''' \<and> start_GRPCTarget r \<noteq> ''''"

lemma validate_loop_ok:
  "validateStartSagaSteps_loop rs acc = Inr ss \<longleftrightarrow>
   (\<forall>r \<in> set rs. valid_step r) \<and> ss = acc @ map fresh_step rs"
  by (induction rs arbitrary: acc) (auto simp: valid_step_def fresh_step_def)

lemma validate_loop_error:
  "\<forall>r \<in> set good. valid_step r \<Longrightarrow> \<not> valid_step bad \<Longrightarrow>
   validateStartSagaSteps_loop (good @ bad # rest) acc =
     Inl (Sentinel (ServiceErr (if start_Name bad = '''' then ErrInvalidStepName else ErrInvalidStepGRPCTarget)))"
  by (induction good arbitrary: acc) (auto simp: valid_step_def)

lemma validateStartSagaSteps_ok:
  "validateStartSagaSteps rs = Inr ss \<longleftrightarrow>
   rs \<noteq> [] \<and> (\<forall>r \<in> set rs. valid_step r) \<and> ss = map fresh_step rs"
  by (simp add: validateStartSagaSteps_def validate_loop_ok)

lemma parseContext_error:
  "parseContext unmarshal raw = Inl e \<Longrightarrow> errors_Is e (ServiceErr ErrInvalidContext)"
  by (auto simp: parseContext_def split: sum.splits)

lemma generateSagaID_key [simp]:
  "key \<noteq> '''' \<Longrightarrow> generateSagaID rnd key = Inr (generateSagaIDFromIdempotencyKey key)"
  by (simp add: generateSagaID_def)

lemma length_keyed_ID: "length (generateSagaIDFromIdempotencyKey key) = 32"
  by (simp add: generateSagaIDFromIdempotencyKey_def)

section \<open>Facts about cancelling\<close>

lemma hasFailedStep_iff: "hasFailedStep steps \<longleftrightarrow> SagaStepStatusFailed \<in> set (map step_Status steps)"
  by (induction steps) auto

lemma hasPendingCompensationSteps_iff:
  "hasPendingCompensationSteps steps \<longleftrightarrow> (\<exists>x \<in> set (map step_Status steps). \<not> settled x)"
  by (induction steps) (auto simp: settled_def)

lemma cancelPendingStep_simps [simp]:
  "step_Status (cancelPendingStep now st) = cancel_status (step_Status st)"
  "step_Name (cancelPendingStep now st) = step_Name st"
  "GRPCTarget (cancelPendingStep now st) = GRPCTarget st"
  by (simp_all add: cancelPendingStep_def cancel_status_def)

lemma normalize_frame: "saga_frame g (normalizeSagaForCancellation now g)"
  by (simp add: normalizeSagaForCancellation_def saga_frame_def Let_def comp_def)

lemma normalize_Steps:
  "map step_Status (Steps (normalizeSagaForCancellation now g)) = map cancel_status (map step_Status (Steps g))"
  by (simp add: normalizeSagaForCancellation_def Let_def comp_def)

lemma normalize_Status:
  assumes "Status g = SagaStatusCanceling"
    and "\<forall>x \<in> set (map cancel_status (map step_Status (Steps g))). in_compensation x"
  shows "Status (normalizeSagaForCancellation now g) =
    (if \<exists>x \<in> set (map cancel_status (map step_Status (Steps g))). \<not> settled x
     then SagaStatusCanceling else SagaStatusCompensated)"
proof -
  let ?steps = "map (cancelPendingStep now) (Steps g)"
  have eq: "map step_Status ?steps = map cancel_status (map step_Status (Steps g))" by (simp add: comp_def)
  have "\<not> hasFailedStep ?steps"
    using assms(2) in_compensation_declared unfolding hasFailedStep_iff eq by blast
  then show ?thesis
    using assms(1) hasPendingCompensationSteps_iff [of ?steps, unfolded eq]
    by (simp add: normalizeSagaForCancellation_def Let_def)
qed

lemma cancelCandidate_error:
  "cancelCandidate now g = Inl e \<longleftrightarrow>
   Status g = SagaStatusFailed \<and> e = Sentinel (ServiceErr ErrSagaCancelNotAllowed)"
  by (cases "Status g") (auto simp: cancelCandidate_def)

lemma cancelCandidate_frame: "cancelCandidate now g = Inr h \<Longrightarrow> saga_frame g h"
proof -
  assume "cancelCandidate now g = Inr h"
  then have "h = g \<or> h = normalizeSagaForCancellation now g
      \<or> h = normalizeSagaForCancellation now (g\<lparr>Status := SagaStatusCanceling\<rparr>)"
    by (auto simp: cancelCandidate_def split: if_splits)
  then show ?thesis
    using normalize_frame [of g now] normalize_frame [of "g\<lparr>Status := SagaStatusCanceling\<rparr>" now]
    by (auto simp: saga_frame_def)
qed

text \<open>What a cancellation makes of a well-formed saga that has not failed or been compensated.\<close>

lemma cancelCandidate_active:
  assumes "saga_ok g" and "cancelCandidate now g = Inr h" and "Status g \<noteq> SagaStatusCompensated"
  shows "map step_Status (Steps h) = map cancel_status (map step_Status (Steps g))"
    and "\<forall>x \<in> set (map step_Status (Steps h)). in_compensation x"
    and "Status h = (if \<exists>x \<in> set (map step_Status (Steps h)). \<not> settled x
      then SagaStatusCanceling else SagaStatusCompensated)"
proof -
  have st: "Status g = SagaStatusCreated \<or> Status g = SagaStatusRunning
      \<or> Status g = SagaStatusCompleted \<or> Status g = SagaStatusCanceling"
    using assms by (cases "Status g") (auto simp: cancelCandidate_def saga_ok_def)
  let ?g = "g\<lparr>Status := SagaStatusCanceling\<rparr>"
  have g_id: "g\<lparr>Status := SagaStatusCanceling\<rparr> = g" if "Status g = SagaStatusCanceling"
    using that by (intro Saga.equality) simp_all
  have h: "h = normalizeSagaForCancellation now ?g"
    using st assms(2) by (auto simp: cancelCandidate_def g_id)
  have shape: "\<forall>x \<in> set (map cancel_status (map step_Status (Steps g))). in_compensation x"
    using cancel_shape [OF assms(1) [unfolded saga_ok_def] st] .
  show steps: "map step_Status (Steps h) = map cancel_status (map step_Status (Steps g))"
    unfolding h normalize_Steps by simp
  show "\<forall>x \<in> set (map step_Status (Steps h)). in_compensation x"
    using shape unfolding steps .
  show "Status h = (if \<exists>x \<in> set (map step_Status (Steps h)). \<not> settled x
      then SagaStatusCanceling else SagaStatusCompensated)"
    unfolding steps unfolding h by (subst normalize_Status) (use shape in simp_all)
qed

lemma settled_cancel_status: "settled (cancel_status x) = settled x"
  by (simp add: cancel_status_def settled_def)

lemma cancelCandidate_statuses:
  assumes "saga_ok g" and "cancelCandidate now g = Inr h"
  shows "map step_Status (Steps h) = map (\<lambda>st. cancel_status (step_Status st)) (Steps g)"
    and "Status h = (if \<exists>st \<in> set (Steps g). \<not> settled (step_Status st)
      then SagaStatusCanceling else SagaStatusCompensated)"
proof -
  have "map step_Status (Steps h) = map (\<lambda>st. cancel_status (step_Status st)) (Steps g)
    \<and> Status h = (if \<exists>st \<in> set (Steps g). \<not> settled (step_Status st)
      then SagaStatusCanceling else SagaStatusCompensated)"
  proof (cases "Status g = SagaStatusCompensated")
    case True
    then have "\<forall>st \<in> set (Steps g). step_Status st = SagaStepStatusCompensated"
      using assms(1) by (simp add: saga_ok_def)
    then show ?thesis using assms(2) True by (auto simp: cancelCandidate_def cancel_status_def settled_def)
  next
    case False
    note a = cancelCandidate_active [OF assms False]
    have "(\<exists>x \<in> set (map step_Status (Steps h)). \<not> settled x) \<longleftrightarrow> (\<exists>st \<in> set (Steps g). \<not> settled (step_Status st))"
      unfolding a(1) by (simp add: settled_cancel_status)
    then show ?thesis using a(1,3) by (simp add: comp_def)
  qed
  then show "map step_Status (Steps h) = map (\<lambda>st. cancel_status (step_Status st)) (Steps g)"
    and "Status h = (if \<exists>st \<in> set (Steps g). \<not> settled (step_Status st)
      then SagaStatusCanceling else SagaStatusCompensated)" by auto
qed

lemma cancelCandidate_ok:
  assumes "saga_ok g" and "cancelCandidate now g = Inr h"
  shows "saga_ok h \<and> transits (Status g) (Status h)"
proof (cases "Status g = SagaStatusCompensated")
  case True
  then show ?thesis using assms by (simp add: cancelCandidate_def)
next
  case False
  note active = cancelCandidate_active [OF assms False]
  have "length (Steps h) = length (Steps g)"
    using cancelCandidate_frame [OF assms(2)] by (rule saga_frame_length)
  then have ne: "Steps h \<noteq> []"
    using saga_shape_nonempty [OF assms(1) [unfolded saga_ok_def]] by auto
  have "CanTransition (Status g) SagaStatusCanceling"
    using assms False by (cases "Status g") (auto simp: cancelCandidate_def saga_ok_def)
  moreover have "transits SagaStatusCanceling (Status h)"
    using active(3) by (auto intro: r_into_rtranclp)
  ultimately have "transits (Status g) (Status h)" by (rule converse_rtranclp_into_rtranclp)
  moreover have "saga_ok h"
    using active(2,3) ne by (auto simp: saga_ok_def in_compensation_def)
  ultimately show ?thesis by simp
qed

lemma cancelCandidate_good:
  assumes "saga_good g" and "cancelCandidate now g = Inr h"
  shows "saga_good h"
proof -
  have "steps_started (normalizeSagaForCancellation now c)" if "steps_started c" for c
    using that
    by (auto simp: normalizeSagaForCancellation_def steps_started_def cancelPendingStep_def Let_def)
  then have "steps_started h"
    using assms by (auto simp: cancelCandidate_def saga_good_def split: if_splits)
  then show ?thesis using assms cancelCandidate_ok [OF _ assms(2)] by (simp add: saga_good_def)
qed

lemma cancelCandidate_progress:
  assumes "saga_ok g" and "cancelCandidate now g = Inr h"
  shows "saga_progress g h"
proof (rule saga_progressI)
  show "saga_frame g h" using assms(2) by (rule cancelCandidate_frame)
  show "transits (Status g) (Status h)" using cancelCandidate_ok [OF assms] by simp
next
  fix i
  assume i: "i < length (Steps g)" "map step_Status (Steps g) ! i \<noteq> SagaStepStatusPending"
  show "map step_Status (Steps h) ! i \<noteq> SagaStepStatusPending"
  proof (cases "Status g = SagaStatusCompensated")
    case True
    then show ?thesis using assms(2) i by (simp add: cancelCandidate_def)
  next
    case False
    then show ?thesis using cancelCandidate_active(1) [OF assms False] i
      by (simp add: cancel_status_pending)
  qed
qed

section \<open>The handlers over the store laws\<close>

text \<open>The saga that a start request asks for.\<close>

definition requested_saga :: "string \<Rightarrow> string \<Rightarrow> context_map \<Rightarrow> StartSagaStep list \<Rightarrow> time \<Rightarrow> Saga" where
  "requested_saga sagaID workflow sagaContext steps now =
     \<lparr>ID = sagaID, Workflow = workflow, Status = SagaStatusCreated, Context = sagaContext,
      Steps = map fresh_step steps, CreatedAt = now, UpdatedAt = now\<rparr>"

lemma requested_saga_ok: "steps \<noteq> [] \<Longrightarrow> saga_ok (requested_saga i w c steps now)"
proof -
  assume "steps \<noteq> []"
  moreover have "map step_Status (map fresh_step steps) = replicate (length steps) SagaStepStatusPending"
    by (simp add: map_replicate_const [symmetric] comp_def fresh_step_def)
  ultimately show ?thesis
    using fresh_shape [of "length steps"] by (simp add: saga_ok_def requested_saga_def)
qed

lemma requested_saga_good: "steps \<noteq> [] \<Longrightarrow> saga_good (requested_saga i w c steps now)"
  by (auto simp: saga_good_def requested_saga_ok)
     (simp add: steps_started_def requested_saga_def fresh_step_def)

text \<open>Whatever happens to the lock, a cancellation leaves the store alone or makes its one update.\<close>

lemma CancelSaga_state:
  assumes "CancelSaga (Some st) sl lockNow deadline requestErr evs lockCtx stepNow now i l s = (r, l', s')"
    and up: "store_Update st lockCtx now i (cancelCandidate stepNow) s = (u, s1)"
  shows "s' = s \<or> s' = s1"
proof -
  define fn where "fn = (\<lambda>(s, _ :: Saga option). case store_Update st lockCtx now i (cancelCandidate stepNow) s of
       (Inl updateErr, s') \<Rightarrow> (Some updateErr, s', None)
     | (Inr updatedSaga, s') \<Rightarrow> (None, s', Some updatedSaga))"
  have "s' = fst (snd (snd (withSagaLock sl lockNow deadline requestErr evs i fn l (s, None))))"
    using assms(1) by (auto simp: CancelSaga_def fn_def split: prod.splits option.splits)
  moreover have "fst (snd (fn (s, None))) = s1"
    using up by (auto simp: fn_def split: sum.splits)
  ultimately show ?thesis
    using withSagaLock_state [of sl lockNow deadline requestErr evs i fn l "(s, None)"] by auto
qed

context saga_store
begin

lemma keep_shape:
  assumes "saga_ok g"
  shows "Status (keep g) = Status g" and "map step_Status (Steps (keep g)) = map step_Status (Steps g)"
  using saga_shape_declared [OF assms [unfolded saga_ok_def]] by (auto intro: keep_Status keep_Steps)

lemma keep_ok: "saga_ok g \<Longrightarrow> saga_ok (keep g)"
  by (simp add: saga_ok_def keep_shape)

lemma keep_good: "saga_good g \<Longrightarrow> saga_good (keep g)"
  using saga_shape_declared(2) [of "Status g" "map step_Status (Steps g)"] keep_started keep_ok
  by (simp add: saga_good_def saga_ok_def)

text \<open>
  A start that succeeds has stored the requested saga under a new identifier, or its
  idempotency key had been used and nothing changed.
\<close>

lemma start_result:
  assumes "inv s"
    and "StartSagaWithIdempotencyKey (Some ops) unmarshal rnd now c c' workflow key raw steps s = (Inr i, s')"
    and "\<And>j sagaContext. fits (requested_saga j workflow sagaContext steps now)"
  obtains (created) sagaContext where "inv s'" "lookup s i = None" "workflow \<noteq> ''''"
      "parseContext unmarshal raw = Inr sagaContext" "steps \<noteq> []" "\<forall>r \<in> set steps. valid_step r"
      "generateSagaID rnd (TrimSpace key) = Inr i"
      "lookup s' = (lookup s)(i \<mapsto> keep (requested_saga i workflow sagaContext steps now))"
    | (existing) "inv s'" "lookup s' = lookup s" "lookup s i \<noteq> None" "TrimSpace key \<noteq> ''''"
      "i = generateSagaIDFromIdempotencyKey (TrimSpace key)"
proof -
  from assms(2) obtain sagaContext j where r: "workflow \<noteq> ''''" "parseContext unmarshal raw = Inr sagaContext"
    "steps \<noteq> []" "\<forall>r \<in> set steps. valid_step r" "generateSagaID rnd (TrimSpace key) = Inr j"
    and res: "(case store_Create ops c (requested_saga j workflow sagaContext steps now) s of
        (Some createErr, s') \<Rightarrow>
          if TrimSpace key \<noteq> '''' \<and> errors_Is createErr (StoreErr ErrAlreadyExists)
          then (case store_Get ops c' j s' of
                  Inl getErr \<Rightarrow> (Inl (mapStoreError getErr), s')
                | Inr existingSaga \<Rightarrow> (Inr (ID existingSaga), s'))
          else (Inl createErr, s')
      | (None, s') \<Rightarrow> (Inr j, s')) = (Inr i, s')"
    by (auto simp: StartSagaWithIdempotencyKey_def requested_saga_def validateStartSagaSteps_ok Let_def
        split: if_splits sum.splits)
  obtain e s1 where cr: "store_Create ops c (requested_saga j workflow sagaContext steps now) s = (e, s1)"
    by (cases "store_Create ops c (requested_saga j workflow sagaContext steps now) s")
  show thesis
  proof (cases e)
    case None
    then have "i = j" "s1 = s'" using res cr by auto
    then show thesis
      using create_ok [OF assms(1) cr [unfolded None] assms(3)] r by (intro created) (auto simp: requested_saga_def)
  next
    case (Some err)
    then have ex: "TrimSpace key \<noteq> ''''" "errors_Is err (StoreErr ErrAlreadyExists)" "s1 = s'"
      and got: "\<exists>g. store_Get ops c' j s' = Inr g \<and> i = ID g"
      using res cr by (auto split: if_splits sum.splits)
    have frame: "inv s' \<and> lookup s' = lookup s"
      using create_error [OF assms(1) cr [unfolded Some]] ex(3) by simp
    moreover from got obtain g where g: "store_Get ops c' j s' = Inr g" "i = ID g" by blast
    then have "lookup s' j = Some g" using get_ok frame by blast
    moreover from this have "i = j" using lookup_ID frame g(2) by blast
    ultimately show thesis using ex(1) r(5) by (intro existing) auto
  qed
qed

lemma start_error:
  assumes "inv s"
    and "StartSagaWithIdempotencyKey (Some ops) unmarshal rnd now c c' workflow key raw steps s = (Inl e, s')"
  shows "inv s' \<and> lookup s' = lookup s"
  using assms create_error [OF assms(1)]
  by (auto simp: StartSagaWithIdempotencyKey_def Let_def
      split: if_splits sum.splits prod.splits option.splits)

text \<open>So it leaves the sagas alone or cancels one.\<close>

lemma cancel_result:
  assumes "inv s"
    and "CancelSaga (Some ops) sl lockNow deadline requestErr evs lockCtx stepNow now i l s = (r, l', s')"
  obtains (unchanged) "inv s'" "lookup s' = lookup s"
    | (cancelled) g h where "inv s'" "lookup s i = Some g" "cancelCandidate stepNow g = Inr h"
      "lookup s' = (lookup s)(i \<mapsto> keep (h\<lparr>UpdatedAt := now\<rparr>))"
proof -
  obtain u s1 where up: "store_Update ops lockCtx now i (cancelCandidate stepNow) s = (u, s1)"
    by (cases "store_Update ops lockCtx now i (cancelCandidate stepNow) s")
  have s': "s' = s \<or> s' = s1" using CancelSaga_state [OF assms(2) up] .
  show thesis
  proof (cases u)
    case (Inl e)
    then show thesis using update_error [OF assms(1) up [unfolded Inl]] s' assms(1) unchanged by blast
  next
    case (Inr g')
    from update_ok [OF assms(1) up [unfolded Inr] cancelCandidate_frame [of stepNow]] obtain g h where
      "inv s1" "lookup s i = Some g" "cancelCandidate stepNow g = Inr h"
      "lookup s1 = (lookup s)(i \<mapsto> keep (h\<lparr>UpdatedAt := now\<rparr>))" by blast
    then show thesis using s' assms(1) unchanged cancelled by blast
  qed
qed

end

section \<open>The handlers on a live store\<close>

text \<open>What a start does once the request has been validated and an identifier chosen.\<close>

lemma start_valid:
  assumes "workflow \<noteq> ''''" and "parseContext unmarshal raw = Inr sagaContext" and "steps \<noteq> []"
    and "\<forall>r \<in> set steps. valid_step r" and "generateSagaID rnd (TrimSpace key) = Inr i"
  shows "StartSagaWithIdempotencyKey (Some st) unmarshal rnd now c c' workflow key raw steps s =
    (case store_Create st c (requested_saga i workflow sagaContext steps now) s of
       (Some createErr, s') \<Rightarrow>
         if TrimSpace key \<noteq> '''' \<and> errors_Is createErr (StoreErr ErrAlreadyExists)
         then (case store_Get st c' i s' of
                 Inl getErr \<Rightarrow> (Inl (mapStoreError getErr), s')
               | Inr existingSaga \<Rightarrow> (Inr (ID existingSaga), s'))
         else (Inl createErr, s')
     | (None, s') \<Rightarrow> (Inr i, s'))"
  using assms
  by (simp add: StartSagaWithIdempotencyKey_def requested_saga_def Let_def
      validateStartSagaSteps_ok [THEN iffD2])

context live_store
begin

lemma start_fresh:
  assumes "inv s" and "workflow \<noteq> ''''" and "parseContext unmarshal raw = Inr sagaContext" and "steps \<noteq> []"
    and "\<forall>r \<in> set steps. valid_step r" and "generateSagaID rnd (TrimSpace key) = Inr i"
    and "lookup s i = None" and "fits (requested_saga i workflow sagaContext steps now)"
  obtains s' where "StartSagaWithIdempotencyKey (Some ops) unmarshal rnd now live c' workflow key raw steps s = (Inr i, s')"
    "inv s'" "lookup s' = (lookup s)(i \<mapsto> keep (requested_saga i workflow sagaContext steps now))"
proof -
  have i: "ID (requested_saga i workflow sagaContext steps now) = i" by (simp add: requested_saga_def)
  obtain s' where cr: "store_Create ops live (requested_saga i workflow sagaContext steps now) s = (None, s')"
    using create_live [OF assms(1), of "requested_saga i workflow sagaContext steps now"] assms(7,8) i by auto
  then show thesis
    using create_ok [OF assms(1) cr assms(8)] start_valid [OF assms(2-6), where st = ops and c = live and s = s] i
    by (intro that) auto
qed

lemma start_again:
  assumes "inv s" and "workflow \<noteq> ''''" and "parseContext unmarshal raw = Inr sagaContext" and "steps \<noteq> []"
    and "\<forall>r \<in> set steps. valid_step r" and "TrimSpace key \<noteq> ''''"
    and "lookup s (generateSagaIDFromIdempotencyKey (TrimSpace key)) \<noteq> None"
  shows "StartSagaWithIdempotencyKey (Some ops) unmarshal rnd now live live workflow key raw steps s
    = (Inr (generateSagaIDFromIdempotencyKey (TrimSpace key)), s)"
proof -
  let ?i = "generateSagaIDFromIdempotencyKey (TrimSpace key)"
  let ?g = "requested_saga ?i workflow sagaContext steps now"
  have "ID ?g = ?i" by (simp add: requested_saga_def)
  then have cr: "store_Create ops live ?g s = (Some (Sentinel (StoreErr ErrAlreadyExists)), s)"
    using create_live_exists [OF assms(1), of ?g] assms(7) by simp
  obtain g where g: "lookup s ?i = Some g" using assms(7) by blast
  then have "store_Get ops live ?i s = Inr g" "ID g = ?i"
    using get_live [OF assms(1)] lookup_ID [OF assms(1)] by auto
  then show ?thesis
    using start_valid [OF assms(2-5) generateSagaID_key [OF assms(6)], where st = ops and c = live and s = s] cr assms(6)
    by simp
qed

lemma cancel_noop:
  "CancelSaga (Some ops) (newSagaLocker h None ttl) lockNow deadline requestErr
     (replicate n Tick @ [LockCtxDone Canceled]) lockCtx stepNow now i l s =
   (case store_Update ops lockCtx now i (cancelCandidate stepNow) s of
      (Inl err, s') \<Rightarrow> (Inl (mapStoreError err), l, s')
    | (Inr saga, s') \<Rightarrow> (Inr saga, l, s'))"
  by (auto simp: CancelSaga_def withSagaLock_noop split: prod.splits sum.splits option.splits)

lemma cancel_live:
  assumes "inv s" and "lookup s i = Some g" and "cancelCandidate stepNow g = Inr h"
  obtains s' where "store_Update ops live now i (cancelCandidate stepNow) s = (Inr (Clone (h\<lparr>UpdatedAt := now\<rparr>)), s')"
    "inv s'" "lookup s' = (lookup s)(i \<mapsto> keep (h\<lparr>UpdatedAt := now\<rparr>))"
proof -
  obtain s' where up: "store_Update ops live now i (cancelCandidate stepNow) s = (Inr (Clone (h\<lparr>UpdatedAt := now\<rparr>)), s')"
    using update_live [where fn = "cancelCandidate stepNow", OF assms] by blast
  from update_ok [OF assms(1) up cancelCandidate_frame [of stepNow]] assms(2,3) have "inv s'"
    "lookup s' = (lookup s)(i \<mapsto> keep (h\<lparr>UpdatedAt := now\<rparr>))" by auto
  then show thesis using that up by blast
qed

end

end
