(* ===== verification/Step_Dispatcher.thy ===== *)
theory Step_Dispatcher
  imports Domain
begin

text \<open>
  \<^verbatim>\<open>internal/service/step_dispatcher.go\<close>: the call of a step's gRPC target. The gRPC client
  library and \<^verbatim>\<open>json.Marshal\<close> are parameters: \<open>newClient target\<close> and \<open>closeConn\<close> give the
  error of opening and closing the connection, \<open>call rpc\<close> the error of the remote call. The
  result pairs the error with the remote call that was made, if any.
\<close>

record StepRequest =
  req_SagaId :: string
  req_Workflow :: string
  req_StepName :: string
  req_Attempt :: "32 word"
  req_Context :: "byte list"

datatype rpc = ExecuteStep StepRequest | CompensateStep StepRequest

definition executeStep :: "Saga \<Rightarrow> SagaStep \<Rightarrow> byte list \<Rightarrow> rpc" where
  "executeStep saga step payload =
     ExecuteStep \<lparr>req_SagaId = ID saga, req_Workflow = Workflow saga, req_StepName = step_Name step,
       req_Attempt = Attempt step, req_Context = payload\<rparr>"

definition compensateStep :: "Saga \<Rightarrow> SagaStep \<Rightarrow> byte list \<Rightarrow> rpc" where
  "compensateStep saga step payload =
     CompensateStep \<lparr>req_SagaId = ID saga, req_Workflow = Workflow saga, req_StepName = step_Name step,
       req_Attempt = Attempt step, req_Context = payload\<rparr>"

definition grpcDispatch ::
  "(context_map \<Rightarrow> error + byte list) \<Rightarrow> (string \<Rightarrow> error option) \<Rightarrow> (rpc \<Rightarrow> error option) \<Rightarrow> error option
   \<Rightarrow> Saga \<Rightarrow> SagaStep \<Rightarrow> error option \<times> rpc option" where
  "grpcDispatch marshal newClient call closeConn saga step =
     (if GRPCTarget step = '''' then (Some (Sentinel (ServiceErr ErrInvalidStepGRPCTarget)), None)
      else case marshal (Context saga) of
        Inl err \<Rightarrow> (Some (Wrapped (''marshal saga context: '' @ error_text err) err), None)
      | Inr payload \<Rightarrow>
        (case newClient (GRPCTarget step) of
           Some err \<Rightarrow>
             (Some (Wrapped (''dial step target '' @ fmt_q (GRPCTarget step) @ '': '' @ error_text err) err), None)
         | None \<Rightarrow>
           let (operationName, rpc) =
                 (if step_Status step = SagaStepStatusCompensating
                  then (''compensate'', compensateStep saga step payload)
                  else (''execute'', executeStep saga step payload))
           in case call rpc of
                Some callErr \<Rightarrow>
                  let wrappedCallErr = Wrapped (operationName @ '' step via grpc target ''
                        @ fmt_q (GRPCTarget step) @ '': '' @ error_text callErr) callErr
                  in (case closeConn of
                        Some closeErr \<Rightarrow>
                          (Some (Joined wrappedCallErr (Wrapped (''close step target connection ''
                             @ fmt_q (GRPCTarget step) @ '': '' @ error_text closeErr) closeErr)), Some rpc)
                      | None \<Rightarrow> (Some wrappedCallErr, Some rpc))
              | None \<Rightarrow>
                  (case closeConn of
                     Some closeErr \<Rightarrow>
                       (Some (Wrapped (''close step target connection '' @ fmt_q (GRPCTarget step)
                          @ '': '' @ error_text closeErr) closeErr), Some rpc)
                   | None \<Rightarrow> (None, Some rpc))))"

text \<open>A dispatch without an error made exactly the remote call that fits the step's status.\<close>

lemma grpcDispatch_success:
  assumes "grpcDispatch marshal newClient call closeConn saga step = (None, r)"
  shows "\<exists>payload. marshal (Context saga) = Inr payload
    \<and> r = Some (if step_Status step = SagaStepStatusCompensating then compensateStep saga step payload
                else executeStep saga step payload)
    \<and> (\<forall>q. r = Some q \<longrightarrow> call q = None)"
  using assms
  by (auto simp: grpcDispatch_def Let_def split: if_splits sum.splits option.splits prod.splits)

lemma grpcDispatch_call:
  assumes "grpcDispatch marshal newClient call closeConn saga step = (e, Some q)"
  shows "\<exists>payload. q = (if step_Status step = SagaStepStatusCompensating then compensateStep saga step payload
                else executeStep saga step payload)"
  using assms
  by (auto simp: grpcDispatch_def Let_def split: if_splits sum.splits option.splits prod.splits)

end
