(* ===== verification/Step_Runner.thy ===== *)
theory Step_Runner
  imports Service Step_Dispatcher
begin

text \<open>
  \<^verbatim>\<open>internal/service/step_runner.go\<close>: what a worker does with a claimed step, and the loop
  that claims steps and hands them to the worker pool. The dispatcher is an argument, the
  store any store of the interface; \<open>stepNow\<close> is the clock read when a result is applied and
  \<open>now\<close> the one the store reads.
\<close>

datatype stepDispatchMode = stepDispatchModeNone | stepDispatchModeExecute | stepDispatchModeCompensate

section \<open>Preparing a dispatch\<close>

definition validateClaimedStepIndex :: "ClaimedSagaStep \<Rightarrow> nat \<Rightarrow> error option" where
  "validateClaimedStepIndex claimed stepsCount =
     (if claimed_StepIndex claimed \<ge> 0 \<and> claimed_StepIndex claimed < int stepsCount then None
      else Some (Wrapped (runner_error_text ErrClaimedStepIndexOutOfBounds
        @ '': saga_id='' @ claimed_SagaID claimed @ '' step_index='' @ fmt_d (claimed_StepIndex claimed)
        @ '' steps_count='' @ fmt_nat stepsCount)
        (Sentinel (RunnerErr ErrClaimedStepIndexOutOfBounds))))"

definition resolveClaimedStepDispatchMode :: "SagaStatus \<Rightarrow> SagaStepStatus \<Rightarrow> stepDispatchMode \<times> bool" where
  "resolveClaimedStepDispatchMode sagaStatus stepStatus =
     (if sagaStatus = SagaStatusCanceling then
        (if stepStatus = SagaStepStatusRunning \<or> stepStatus = SagaStepStatusCompleted
            \<or> stepStatus = SagaStepStatusCompensating
         then (stepDispatchModeCompensate, True)
         else (stepDispatchModeNone, False))
      else if sagaStatus = SagaStatusCompensated \<or> sagaStatus = SagaStatusFailed
      then (stepDispatchModeNone, False)
      else if stepStatus = SagaStepStatusPending \<or> stepStatus = SagaStepStatusRunning
      then (stepDispatchModeExecute, True)
      else (stepDispatchModeNone, False))"

text \<open>\<open>Inr None\<close> is a result with \<^verbatim>\<open>shouldDispatch\<close> false.\<close>

definition loadClaimedStepForDispatch ::
  "('s, 'z) sagaStore_scheme \<Rightarrow> ctx \<Rightarrow> ClaimedSagaStep \<Rightarrow> 's \<Rightarrow> error + (Saga \<times> SagaStep) option" where
  "loadClaimedStepForDispatch store ctx claimed s =
     (case store_Get store ctx (claimed_SagaID claimed) s of
        Inl err \<Rightarrow> Inl err
      | Inr saga \<Rightarrow>
        (case validateClaimedStepIndex claimed (length (Steps saga)) of
           Some err \<Rightarrow> Inl err
         | None \<Rightarrow>
           let step = Steps saga ! nat (claimed_StepIndex claimed);
               (dispatchMode, shouldDispatch) = resolveClaimedStepDispatchMode (Status saga) (step_Status step)
           in if \<not> shouldDispatch then Inr None
              else
                let step = (if dispatchMode = stepDispatchModeCompensate
                            then step\<lparr>step_Status := SagaStepStatusCompensating\<rparr> else step)
                in Inr (Some (saga, step))))"

section \<open>Applying the result\<close>

fun allStepsCompleted_loop :: "SagaStep list \<Rightarrow> bool" where
  "allStepsCompleted_loop [] = True"
| "allStepsCompleted_loop (step # rest) =
     (if step_Status step \<noteq> SagaStepStatusCompleted then False else allStepsCompleted_loop rest)"

definition allStepsCompleted :: "SagaStep list \<Rightarrow> bool" where
  "allStepsCompleted steps = (if length steps = 0 then False else allStepsCompleted_loop steps)"

text \<open>
  \<^verbatim>\<open>candidateStep\<close> points into the candidate's steps, so writing it is writing the step at
  \<open>index\<close>.
\<close>

definition writeStep :: "Saga \<Rightarrow> nat \<Rightarrow> SagaStepStatus \<Rightarrow> time \<Rightarrow> string \<Rightarrow> Saga" where
  "writeStep candidate index status now err =
     candidate\<lparr>Steps := (Steps candidate)[index := (Steps candidate ! index)
       \<lparr>step_Status := status, FinishedAt := Some now, step_Error := err\<rparr>]\<rparr>"

definition applyClaimedStepDispatchResult :: "time \<Rightarrow> Saga \<Rightarrow> nat \<Rightarrow> error option \<Rightarrow> Saga" where
  "applyClaimedStepDispatchResult now candidate index dispatchErr =
     (case dispatchErr of
        Some err \<Rightarrow>
          let candidate = writeStep candidate index SagaStepStatusFailed now (error_text err)
          in if CanTransition (Status candidate) SagaStatusFailed
             then candidate\<lparr>Status := SagaStatusFailed\<rparr> else candidate
      | None \<Rightarrow>
          let candidate = writeStep candidate index SagaStepStatusCompleted now '''';
              candidate = (if Status candidate = SagaStatusCreated
                              \<and> CanTransition (Status candidate) SagaStatusRunning
                           then candidate\<lparr>Status := SagaStatusRunning\<rparr> else candidate)
          in if hasFailedStep (Steps candidate) \<and> CanTransition (Status candidate) SagaStatusFailed
             then candidate\<lparr>Status := SagaStatusFailed\<rparr>
             else if allStepsCompleted (Steps candidate) \<and> CanTransition (Status candidate) SagaStatusCompleted
             then candidate\<lparr>Status := SagaStatusCompleted\<rparr>
             else candidate)"

definition applyClaimedStepCompensationResult :: "time \<Rightarrow> Saga \<Rightarrow> nat \<Rightarrow> error option \<Rightarrow> Saga" where
  "applyClaimedStepCompensationResult now candidate index dispatchErr =
     (case dispatchErr of
        Some err \<Rightarrow>
          let candidate = writeStep candidate index SagaStepStatusFailed now (error_text err)
          in if CanTransition (Status candidate) SagaStatusFailed
             then candidate\<lparr>Status := SagaStatusFailed\<rparr> else candidate
      | None \<Rightarrow>
          let candidate = writeStep candidate index SagaStepStatusCompensated now ''''
          in if hasFailedStep (Steps candidate) then
               (if CanTransition (Status candidate) SagaStatusFailed
                then candidate\<lparr>Status := SagaStatusFailed\<rparr> else candidate)
             else if \<not> hasPendingCompensationSteps (Steps candidate)
                     \<and> CanTransition (Status candidate) SagaStatusCompensated
             then candidate\<lparr>Status := SagaStatusCompensated\<rparr>
             else candidate)"

text \<open>The function that \<^verbatim>\<open>updateClaimedStepAfterDispatch\<close> passes to the store's \<^verbatim>\<open>Update\<close>.\<close>

definition updateCandidate :: "ClaimedSagaStep \<Rightarrow> error option \<Rightarrow> time \<Rightarrow> Saga \<Rightarrow> error + Saga" where
  "updateCandidate claimed dispatchErr now candidate =
     (case validateClaimedStepIndex claimed (length (Steps candidate)) of
        Some err \<Rightarrow> Inl err
      | None \<Rightarrow>
        let index = nat (claimed_StepIndex claimed);
            stepStatus = step_Status (Steps candidate ! index)
        in if Status candidate = SagaStatusCanceling then
             (if stepStatus \<noteq> SagaStepStatusRunning \<and> stepStatus \<noteq> SagaStepStatusCompleted
                 \<and> stepStatus \<noteq> SagaStepStatusCompensating
              then Inr candidate
              else Inr (applyClaimedStepCompensationResult now candidate index dispatchErr))
           else if stepStatus \<noteq> SagaStepStatusPending \<and> stepStatus \<noteq> SagaStepStatusRunning
           then Inr candidate
           else Inr (applyClaimedStepDispatchResult now candidate index dispatchErr))"

definition updateClaimedStepAfterDispatch ::
  "('s, 'z) sagaStore_scheme \<Rightarrow> ctx \<Rightarrow> time \<Rightarrow> time \<Rightarrow> ClaimedSagaStep \<Rightarrow> error option \<Rightarrow> 's
   \<Rightarrow> error option \<times> 's" where
  "updateClaimedStepAfterDispatch store ctx stepNow now claimed dispatchErr s =
     (case store_Update store ctx now (claimed_SagaID claimed) (updateCandidate claimed dispatchErr stepNow) s of
        (Inl err, s') \<Rightarrow> (Some err, s')
      | (Inr _, s') \<Rightarrow> (None, s'))"

section \<open>Processing a claimed step\<close>

definition processClaimedStepLocked ::
  "('s, 'z) sagaStore_scheme \<Rightarrow> (Saga \<Rightarrow> SagaStep \<Rightarrow> error option) \<Rightarrow> ctx \<Rightarrow> ctx \<Rightarrow> time \<Rightarrow> time
   \<Rightarrow> ClaimedSagaStep \<Rightarrow> 's \<Rightarrow> error option \<times> 's" where
  "processClaimedStepLocked store dispatch ctx ctx' stepNow now claimed s =
     (case loadClaimedStepForDispatch store ctx claimed s of
        Inl err \<Rightarrow> (Some err, s)
      | Inr None \<Rightarrow> (None, s)
      | Inr (Some (saga, step)) \<Rightarrow>
          let dispatchErr = dispatch saga step;
              (updateErr, s') = updateClaimedStepAfterDispatch store ctx' stepNow now claimed dispatchErr s
          in case updateErr of
               Some uerr \<Rightarrow>
                 (case dispatchErr of
                    Some derr \<Rightarrow> (Some (Joined uerr derr), s')
                  | None \<Rightarrow> (Some uerr, s'))
             | None \<Rightarrow>
                 (case dispatchErr of
                    Some derr \<Rightarrow> (Some derr, s')
                  | None \<Rightarrow> (None, s')))"

definition processClaimedStep ::
  "('s, 'z) sagaStore_scheme \<Rightarrow> ('l, 'h) sagaLocker \<Rightarrow> (Saga \<Rightarrow> SagaStep \<Rightarrow> error option)
   \<Rightarrow> time \<Rightarrow> time option \<Rightarrow> ctx \<Rightarrow> watchdog_event list \<Rightarrow> ctx \<Rightarrow> ctx \<Rightarrow> time \<Rightarrow> time
   \<Rightarrow> ClaimedSagaStep \<Rightarrow> 'l \<Rightarrow> 's \<Rightarrow> error option \<times> 'l \<times> 's" where
  "processClaimedStep store sl dispatch lockNow deadline requestErr evs ctx ctx' stepNow now claimed l s =
     withSagaLock sl lockNow deadline requestErr evs (claimed_SagaID claimed)
       (processClaimedStepLocked store dispatch ctx ctx' stepNow now claimed) l s"

section \<open>The loop that claims steps\<close>

record ('s, 'l, 'h) StepRunner =
  runner_store :: "'s stepQueueStore option"
  runner_pollInterval :: duration
  runner_staleAfter :: duration
  runner_dispatcher :: "Saga \<Rightarrow> SagaStep \<Rightarrow> error option"
  runner_locker :: "('l, 'h) sagaLocker"

text \<open>
  \<open>grpcDispatcher\<close> is the dispatcher of \<^verbatim>\<open>newGRPCStepDispatcher\<close>, used when none is given. The
  worker pool the runner creates with \<open>workers\<close> workers is a component of its own.
\<close>

definition NewStepRunner ::
  "'h \<Rightarrow> (Saga \<Rightarrow> SagaStep \<Rightarrow> error option) \<Rightarrow> 's stepQueueStore option \<Rightarrow> ('l, 'h) Locker option \<Rightarrow> duration
   \<Rightarrow> int \<Rightarrow> duration \<Rightarrow> duration \<Rightarrow> (Saga \<Rightarrow> SagaStep \<Rightarrow> error option) option
   \<Rightarrow> error + ('s, 'l, 'h) StepRunner" where
  "NewStepRunner noopHandle grpcDispatcher store lkr ttl workers poll stale disp =
     (if ttl \<le> 0 then Inl (Sentinel (RedisErr ErrInvalidTTL))
      else if workers \<le> 0 then Inl (Sentinel (RunnerErr ErrInvalidStepWorkers))
      else if poll \<le> 0 then Inl (Sentinel (RunnerErr ErrInvalidStepPollInterval))
      else if stale \<le> 0 then Inl (Sentinel (RunnerErr ErrInvalidStepStaleTimeout))
      else
        let disp = (case disp of None \<Rightarrow> grpcDispatcher | Some d \<Rightarrow> d)
        in Inr \<lparr>runner_store = store, runner_pollInterval = poll, runner_staleAfter = stale,
             runner_dispatcher = disp,
             runner_locker = newSagaLocker noopHandle lkr ttl\<rparr>)"

text \<open>
  One round of the loop sees: the context at the start of the round, the context inside the
  claim, the clock, the context after a failed claim, the answer of the pool's
  \<^verbatim>\<open>Submit\<close>, and whether \<^verbatim>\<open>waitTick\<close> saw a tick or the end of the context.
\<close>

record round =
  ctxStart :: ctx
  ctxClaim :: ctx
  clock :: time
  ctxAfter :: ctx
  submitErr :: "error option"
  ticked :: bool

definition isContextAlive :: "ctx \<Rightarrow> bool" where
  "isContextAlive ctx \<longleftrightarrow> ctx = None"

text \<open>
  The loop over the rounds seen so far: whether it has returned, the claims the pool took, and
  the store.
\<close>

fun Run_loop ::
  "'s stepQueueStore \<Rightarrow> duration \<Rightarrow> round list \<Rightarrow> ClaimedSagaStep list \<Rightarrow> 's
   \<Rightarrow> bool \<times> ClaimedSagaStep list \<times> 's" where
  "Run_loop store staleAfter [] submitted s = (False, submitted, s)"
| "Run_loop store staleAfter (r # rs) submitted s =
     (if \<not> isContextAlive (ctxStart r) then (True, submitted, s)
      else case store_ClaimNextStep store (ctxClaim r) (clock r) staleAfter s of
        (Inl err, s') \<Rightarrow>
          if \<not> isContextAlive (ctxAfter r) then (True, submitted, s')
          else if \<not> ticked r then (True, submitted, s')
          else Run_loop store staleAfter rs submitted s'
      | (Inr None, s') \<Rightarrow>
          if \<not> ticked r then (True, submitted, s')
          else Run_loop store staleAfter rs submitted s'
      | (Inr (Some claimed), s') \<Rightarrow>
          (case submitErr r of
             None \<Rightarrow> Run_loop store staleAfter rs (submitted @ [claimed]) s'
           | Some serr \<Rightarrow>
               if errors_Is serr (CtxErr Canceled) \<or> errors_Is serr (PoolErr ErrPoolClosed)
               then (True, submitted, s')
               else if \<not> ticked r then (True, submitted, s')
               else Run_loop store staleAfter rs submitted s'))"

definition Run ::
  "('s, 'l, 'h) StepRunner \<Rightarrow> round list \<Rightarrow> 's \<Rightarrow> error option \<times> bool \<times> ClaimedSagaStep list \<times> 's" where
  "Run r rs s =
     (case runner_store r of
        None \<Rightarrow> (Some (Sentinel (ServiceErr ErrStoreNotConfigured)), True, [], s)
      | Some st \<Rightarrow> (None, Run_loop st (runner_staleAfter r) rs [] s))"

section \<open>Facts about results\<close>

lemma allStepsCompleted_iff:
  "allStepsCompleted steps \<longleftrightarrow> steps \<noteq> [] \<and> (\<forall>x \<in> set (map step_Status steps). x = SagaStepStatusCompleted)"
proof -
  have "allStepsCompleted_loop steps \<longleftrightarrow> (\<forall>x \<in> set (map step_Status steps). x = SagaStepStatusCompleted)"
    by (induction steps) auto
  then show ?thesis by (simp add: allStepsCompleted_def)
qed

lemma validateClaimedStepIndex_None [simp]:
  "validateClaimedStepIndex c n = None \<longleftrightarrow> 0 \<le> claimed_StepIndex c \<and> nat (claimed_StepIndex c) < n"
  by (auto simp: validateClaimedStepIndex_def)

lemma writeStep_simps [simp]:
  "ID (writeStep g k st t e) = ID g" "Workflow (writeStep g k st t e) = Workflow g"
  "Status (writeStep g k st t e) = Status g" "Context (writeStep g k st t e) = Context g"
  "CreatedAt (writeStep g k st t e) = CreatedAt g" "UpdatedAt (writeStep g k st t e) = UpdatedAt g"
  "map step_Status (Steps (writeStep g k st t e)) = (map step_Status (Steps g))[k := st]"
  by (simp_all add: writeStep_def map_update)

lemma writeStep_names [simp]:
  "map step_Name (Steps (writeStep g k st t e)) = map step_Name (Steps g)"
  "map GRPCTarget (Steps (writeStep g k st t e)) = map GRPCTarget (Steps g)"
  by (simp_all add: writeStep_def map_list_update_same)

lemma writeStep_frame [simp]: "saga_frame g (writeStep g k st t e)"
  by (simp add: saga_frame_def)

lemma saga_frame_Status [simp]: "saga_frame g (h\<lparr>Status := st\<rparr>) = saga_frame g h"
  by (simp add: saga_frame_def)

text \<open>The statuses after a result, for a saga that executes.\<close>

lemma dispatch_result_error:
  assumes "Status g = SagaStatusCreated \<or> Status g = SagaStatusRunning \<or> Status g = SagaStatusFailed"
  shows "applyClaimedStepDispatchResult now g k (Some err)
    = (writeStep g k SagaStepStatusFailed now (error_text err))\<lparr>Status := SagaStatusFailed\<rparr>"
  using assms by (auto simp: applyClaimedStepDispatchResult_def Let_def)

lemma dispatch_result_success:
  assumes "Status g = SagaStatusCreated \<or> Status g = SagaStatusRunning"
    and "exec_shape k (map step_Status (Steps g))"
  shows "applyClaimedStepDispatchResult now g k None
    = (writeStep g k SagaStepStatusCompleted now '''')
        \<lparr>Status := (if Suc k < length (Steps g) then SagaStatusRunning else SagaStatusCompleted)\<rparr>"
proof -
  let ?w = "writeStep g k SagaStepStatusCompleted now ''''"
  let ?xs = "(map step_Status (Steps g))[k := SagaStepStatusCompleted]"
  have steps: "map step_Status (Steps ?w) = ?xs" by simp
  have ne: "Steps ?w \<noteq> []" using assms(2) steps
    by (metis exec_shape_def length_0_conv length_list_update length_map list.map_disc_iff not_less_zero)
  have shape: "if Suc k < length (Steps g) then exec_shape (Suc k) ?xs
      else \<forall>x \<in> set ?xs. x = SagaStepStatusCompleted"
    using exec_complete [OF assms(2)] by simp
  have all: "allStepsCompleted (Steps ?w) \<longleftrightarrow> \<not> Suc k < length (Steps g)"
  proof (cases "Suc k < length (Steps g)")
    case True
    then have "exec_shape (Suc k) ?xs" using shape by simp
    then have "?xs ! Suc k \<noteq> SagaStepStatusCompleted" "Suc k < length ?xs" by (auto simp: exec_shape_def)
    then show ?thesis using True unfolding allStepsCompleted_iff steps by (metis nth_mem)
  next
    case False
    then show ?thesis using shape ne unfolding allStepsCompleted_iff steps by simp
  qed
  have "SagaStepStatusFailed \<notin> set ?xs"
    using exec_shape_declared [of "Suc k" ?xs] shape by (auto split: if_splits)
  then have nofail: "\<not> hasFailedStep (Steps ?w)" unfolding hasFailedStep_iff steps .
  show ?thesis
    using assms(1) all nofail
    by (intro Saga.equality) (auto simp: applyClaimedStepDispatchResult_def Let_def)
qed

lemma compensation_result_error:
  assumes "Status g = SagaStatusCanceling"
  shows "applyClaimedStepCompensationResult now g k (Some err)
    = (writeStep g k SagaStepStatusFailed now (error_text err))\<lparr>Status := SagaStatusFailed\<rparr>"
  using assms by (auto simp: applyClaimedStepCompensationResult_def Let_def)

lemma compensation_result_success:
  assumes "Status g = SagaStatusCanceling" and "saga_ok g" and "k < length (Steps g)"
  shows "applyClaimedStepCompensationResult now g k None
    = (writeStep g k SagaStepStatusCompensated now '''')
        \<lparr>Status := (if \<exists>x \<in> set ((map step_Status (Steps g))[k := SagaStepStatusCompensated]). \<not> settled x
                    then SagaStatusCanceling else SagaStatusCompensated)\<rparr>"
proof -
  let ?w = "writeStep g k SagaStepStatusCompensated now ''''"
  let ?xs = "(map step_Status (Steps g))[k := SagaStepStatusCompensated]"
  have "saga_shape SagaStatusCanceling (map step_Status (Steps g))" using assms(1,2) by (simp add: saga_ok_def)
  from compensation_success [OF this, of k] assms(3)
  have "saga_shape SagaStatusCanceling ?xs \<or> saga_shape SagaStatusCompensated ?xs"
    by (auto simp del: saga_shape_simps split: if_splits)
  then have "SagaStepStatusFailed \<notin> set ?xs" using saga_shape_failed_iff by blast
  then have nofail: "\<not> hasFailedStep (Steps ?w)" unfolding hasFailedStep_iff by simp
  moreover have "hasPendingCompensationSteps (Steps ?w) \<longleftrightarrow> (\<exists>x \<in> set ?xs. \<not> settled x)"
    unfolding hasPendingCompensationSteps_iff by simp
  ultimately show ?thesis
    using assms(1) by (intro Saga.equality) (auto simp: applyClaimedStepCompensationResult_def Let_def)
qed

section \<open>Results keep a saga well-formed\<close>

lemma writeStep_progress:
  assumes "st \<noteq> SagaStepStatusPending" and "transits (Status g) x"
  shows "saga_progress g ((writeStep g k st t e)\<lparr>Status := x\<rparr>)"
proof (rule saga_progressI)
  fix i assume "i < length (Steps g)" and np: "map step_Status (Steps g) ! i \<noteq> SagaStepStatusPending"
  then show "map step_Status (Steps ((writeStep g k st t e)\<lparr>Status := x\<rparr>)) ! i \<noteq> SagaStepStatusPending"
    using assms(1) by (cases "i = k") auto
qed (simp_all add: assms)

lemma running_step_exec:
  assumes "exec_shape k xs" and "i < length xs" and "xs ! i = SagaStepStatusRunning"
  shows "i = k"
  using assms by (cases i k rule: linorder_cases) (auto simp: exec_shape_def)

lemma transits_exec:
  assumes "Status g = SagaStatusCreated \<or> Status g = SagaStatusRunning"
  shows "transits (Status g) SagaStatusRunning" and "transits (Status g) SagaStatusCompleted"
proof -
  show r: "transits (Status g) SagaStatusRunning" using assms by (auto intro: r_into_rtranclp)
  then show "transits (Status g) SagaStatusCompleted"
    by (rule rtranclp.rtrancl_into_rtrancl) simp
qed

lemma dispatch_result_ok:
  assumes "saga_ok g" and "k < length (Steps g)" and "status_at g k = SagaStepStatusRunning"
    and "Status g = SagaStatusCreated \<or> Status g = SagaStatusRunning"
  shows "saga_ok (applyClaimedStepDispatchResult now g k err)
    \<and> saga_progress g (applyClaimedStepDispatchResult now g k err)"
proof -
  obtain l where l: "exec_shape l (map step_Status (Steps g))"
    using assms(1,4) by (auto simp: saga_ok_def)
  have "l = k" using running_step_exec [OF l, of k] assms(2,3) by simp
  show ?thesis
  proof (cases err)
    case (Some e)
    have "transits (Status g) SagaStatusFailed" using assms(4) by (auto intro: r_into_rtranclp)
    moreover have "saga_shape SagaStatusFailed ((map step_Status (Steps g))[k := SagaStepStatusFailed])"
      using fail_shape [OF assms(1) [unfolded saga_ok_def], of k] assms(2) by simp
    moreover have "applyClaimedStepDispatchResult now g k err =
        (writeStep g k SagaStepStatusFailed now (error_text e))\<lparr>Status := SagaStatusFailed\<rparr>"
      unfolding Some using assms(4) by (intro dispatch_result_error) auto
    ultimately show ?thesis by (simp add: saga_ok_def writeStep_progress)
  next
    case None
    let ?xs = "(map step_Status (Steps g))[k := SagaStepStatusCompleted]"
    have "if Suc k < length (Steps g) then exec_shape (Suc k) ?xs else \<forall>x \<in> set ?xs. x = SagaStepStatusCompleted"
      using exec_complete [OF l [unfolded \<open>l = k\<close>]] by simp
    then have "saga_shape (if Suc k < length (Steps g) then SagaStatusRunning else SagaStatusCompleted) ?xs"
      using assms(2) by (auto split: if_splits)
    then show ?thesis
      using None dispatch_result_success [OF assms(4), of k] l \<open>l = k\<close> transits_exec [OF assms(4)]
      by (simp add: saga_ok_def writeStep_progress)
  qed
qed

lemma dispatch_result_failed_saga:
  assumes "saga_ok g" and "k < length (Steps g)" and "status_at g k = SagaStepStatusRunning"
    and "Status g = SagaStatusFailed"
  shows "saga_ok (applyClaimedStepDispatchResult now g k err)
    \<and> saga_progress g (applyClaimedStepDispatchResult now g k err)"
proof -
  have shape: "saga_shape SagaStatusFailed (map step_Status (Steps g))"
    using assms(1,4) by (simp add: saga_ok_def)
  have upd: "saga_shape SagaStatusFailed ((map step_Status (Steps g))[k := x])" if "declared_step_status x" for x
    using failed_update [OF shape that, of k] assms(2,3) by simp
  have result: "applyClaimedStepDispatchResult now g k err =
      (case err of None \<Rightarrow> (writeStep g k SagaStepStatusCompleted now '''')\<lparr>Status := SagaStatusFailed\<rparr>
       | Some e \<Rightarrow> (writeStep g k SagaStepStatusFailed now (error_text e))\<lparr>Status := SagaStatusFailed\<rparr>)"
  proof (cases err)
    case None
    have "hasFailedStep (Steps (writeStep g k SagaStepStatusCompleted now ''''))"
      using upd [of SagaStepStatusCompleted] unfolding hasFailedStep_iff by simp
    then show ?thesis using None assms(4) by (simp add: applyClaimedStepDispatchResult_def Let_def)
  qed (simp add: dispatch_result_error assms(4))
  show ?thesis unfolding result
    using upd [of SagaStepStatusCompleted] upd [of SagaStepStatusFailed] assms(4)
    by (cases err) (simp_all add: saga_ok_def writeStep_progress)
qed

lemma compensation_result_ok:
  assumes "saga_ok g" and "k < length (Steps g)" and "Status g = SagaStatusCanceling"
  shows "saga_ok (applyClaimedStepCompensationResult now g k err)
    \<and> saga_progress g (applyClaimedStepCompensationResult now g k err)"
proof (cases err)
  case (Some e)
  have "saga_shape SagaStatusFailed ((map step_Status (Steps g))[k := SagaStepStatusFailed])"
    using fail_shape [OF assms(1) [unfolded saga_ok_def], of k] assms(2) by simp
  moreover have "transits (Status g) SagaStatusFailed" using assms(3) by (auto intro: r_into_rtranclp)
  ultimately show ?thesis
    using Some assms(3) by (simp add: compensation_result_error saga_ok_def writeStep_progress)
next
  case None
  let ?xs = "(map step_Status (Steps g))[k := SagaStepStatusCompensated]"
  let ?st = "if \<exists>x \<in> set ?xs. \<not> settled x then SagaStatusCanceling else SagaStatusCompensated"
  have "saga_shape SagaStatusCanceling (map step_Status (Steps g))" using assms(1,3) by (simp add: saga_ok_def)
  from compensation_success [OF this, of k] assms(2) have "saga_shape ?st ?xs"
    by (simp del: saga_shape_simps split: if_splits)
  moreover have "transits (Status g) ?st" using assms(3) by (auto intro: r_into_rtranclp)
  ultimately show ?thesis
    using compensation_result_success [OF assms(3,1,2)] None
    by (simp add: saga_ok_def writeStep_progress del: saga_shape_simps)
qed

text \<open>
  Recording a result keeps every saga well-formed, in whatever status the worker finds it, as
  long as the step had been started.
\<close>

lemma updateCandidate_ok:
  assumes "saga_ok g" and "updateCandidate c err now g = Inr h"
    and "status_at g (nat (claimed_StepIndex c)) \<noteq> SagaStepStatusPending"
  shows "saga_ok h \<and> saga_progress g h"
proof -
  let ?k = "nat (claimed_StepIndex c)"
  have k: "?k < length (Steps g)"
    using assms(2) by (auto simp: updateCandidate_def split: option.splits)
  consider "h = g"
    | "Status g = SagaStatusCanceling" "h = applyClaimedStepCompensationResult now g ?k err"
    | "Status g \<noteq> SagaStatusCanceling" "status_at g ?k = SagaStepStatusRunning"
      "h = applyClaimedStepDispatchResult now g ?k err"
    using assms(2,3) by (auto simp: updateCandidate_def Let_def split: option.splits if_splits)
  then show ?thesis
  proof cases
    case 1
    then show ?thesis using assms(1) by simp
  next
    case 2
    then show ?thesis using compensation_result_ok [OF assms(1) k] by simp
  next
    case 3
    have "status_at g ?k \<in> set (map step_Status (Steps g))" using k by simp
    then have "Status g = SagaStatusCreated \<or> Status g = SagaStatusRunning \<or> Status g = SagaStatusFailed"
      using assms(1) 3(1,2) by (cases "Status g") (auto simp: saga_ok_def)
    then show ?thesis
      using dispatch_result_ok [OF assms(1) k 3(2)] dispatch_result_failed_saga [OF assms(1) k 3(2)] 3(3)
      by auto
  qed
qed

lemma updateCandidate_good:
  assumes "saga_good g" and "updateCandidate c err now g = Inr h"
    and "status_at g (nat (claimed_StepIndex c)) \<noteq> SagaStepStatusPending"
  shows "saga_good h"
proof -
  have w: "steps_started (writeStep g k st t e)"
    if "st \<noteq> SagaStepStatusRunning" "st \<noteq> SagaStepStatusCompensating" for k st t e
    using assms(1) that by (auto simp: writeStep_def saga_good_def intro: steps_started_write)
  have "steps_started h"
    using assms(1,2)
    by (auto simp: updateCandidate_def applyClaimedStepDispatchResult_def w saga_good_def
        applyClaimedStepCompensationResult_def Let_def split: option.splits if_splits)
  then show ?thesis using updateCandidate_ok [OF _ assms(2,3)] assms(1) by (simp add: saga_good_def)
qed

lemma updateCandidate_frame:
  "updateCandidate c err now g = Inr h \<Longrightarrow> saga_frame g h"
  by (auto simp: updateCandidate_def applyClaimedStepDispatchResult_def
      applyClaimedStepCompensationResult_def Let_def split: option.splits if_splits)

lemma updateCandidate_total:
  assumes "0 \<le> claimed_StepIndex c" and "nat (claimed_StepIndex c) < length (Steps g)"
  shows "\<exists>h. updateCandidate c err now g = Inr h"
proof -
  have "validateClaimedStepIndex c (length (Steps g)) = None" using assms by simp
  then show ?thesis by (simp add: updateCandidate_def Let_def del: validateClaimedStepIndex_None)
qed

section \<open>The worker over the store laws\<close>

context saga_store
begin

lemma update_after_dispatch:
  assumes "inv s"
    and "updateClaimedStepAfterDispatch ops c stepNow now claimed err s = (e, s')"
  obtains (unchanged) "inv s'" "lookup s' = lookup s" "e \<noteq> None"
    | (recorded) g h where "inv s'" "lookup s (claimed_SagaID claimed) = Some g"
      "updateCandidate claimed err stepNow g = Inr h" "e = None"
      "lookup s' = (lookup s)(claimed_SagaID claimed \<mapsto> keep (h\<lparr>UpdatedAt := now\<rparr>))"
proof -
  obtain u where up: "store_Update ops c now (claimed_SagaID claimed) (updateCandidate claimed err stepNow) s = (u, s')"
    and e: "e = (case u of Inl x \<Rightarrow> Some x | Inr _ \<Rightarrow> None)"
    using assms(2) by (auto simp: updateClaimedStepAfterDispatch_def split: prod.splits sum.splits)
  show thesis
  proof (cases u)
    case (Inl x)
    then show thesis using update_error [OF assms(1) up [unfolded Inl]] e unchanged by simp
  next
    case (Inr g')
    from update_ok [OF assms(1) up [unfolded Inr] updateCandidate_frame [of claimed err stepNow]] e Inr show thesis by (auto intro: recorded)
  qed
qed

text \<open>What a worker dispatches: a step of the stored saga, in the mode its status asks for.\<close>

lemma load_result:
  assumes "inv s" and "loadClaimedStepForDispatch ops c claimed s = Inr (Some (g, st))"
  obtains k where "lookup s (claimed_SagaID claimed) = Some g" "claimed_StepIndex claimed = int k"
    "k < length (Steps g)"
    "Status g = SagaStatusCanceling \<and> \<not> settled (status_at g k)
       \<and> st = (Steps g ! k)\<lparr>step_Status := SagaStepStatusCompensating\<rparr>
     \<or> Status g \<noteq> SagaStatusCanceling \<and> Status g \<noteq> SagaStatusCompensated \<and> Status g \<noteq> SagaStatusFailed
       \<and> (status_at g k = SagaStepStatusPending \<or> status_at g k = SagaStepStatusRunning) \<and> st = Steps g ! k"
proof -
  have get: "store_Get ops c (claimed_SagaID claimed) s = Inr g"
    and idx: "validateClaimedStepIndex claimed (length (Steps g)) = None"
    using assms(2)
    by (auto simp: loadClaimedStepForDispatch_def Let_def split: sum.splits option.splits prod.splits if_splits)
  let ?k = "nat (claimed_StepIndex claimed)"
  have "claimed_StepIndex claimed = int ?k" "?k < length (Steps g)" using idx by simp_all
  then show thesis
    using assms(2) get idx get_ok [OF assms(1) get]
    by (intro that [of ?k])
       (auto simp: loadClaimedStepForDispatch_def resolveClaimedStepDispatchMode_def settled_def Let_def
         split: if_splits)
qed

end

section \<open>Results on a live store\<close>

lemma writeStep_at:
  "k < length (Steps g) \<Longrightarrow> Steps (writeStep g k st t e) ! k
     = (Steps g ! k)\<lparr>step_Status := st, FinishedAt := Some t, step_Error := e\<rparr>"
  by (simp add: writeStep_def)

lemma dispatch_result_at:
  "k < length (Steps g) \<Longrightarrow> status_at (applyClaimedStepDispatchResult now g k err) k
     = (if err = None then SagaStepStatusCompleted else SagaStepStatusFailed)"
  by (simp add: applyClaimedStepDispatchResult_def Let_def writeStep_at split: option.splits)

lemma compensation_result_at:
  "k < length (Steps g) \<Longrightarrow> status_at (applyClaimedStepCompensationResult now g k err) k
     = (if err = None then SagaStepStatusCompensated else SagaStepStatusFailed)"
  by (simp add: applyClaimedStepCompensationResult_def Let_def writeStep_at split: option.splits)

text \<open>The result that \<^verbatim>\<open>updateCandidate\<close> applies, for a saga in the phase of the step.\<close>

definition phase_result :: "time \<Rightarrow> Saga \<Rightarrow> nat \<Rightarrow> error option \<Rightarrow> Saga" where
  "phase_result now g k err =
     (if Status g = SagaStatusCanceling then applyClaimedStepCompensationResult now g k err
      else applyClaimedStepDispatchResult now g k err)"

lemma updateCandidate_phase:
  assumes "claimed_StepIndex d = int k" and "k < length (Steps g)"
    and "if Status g = SagaStatusCanceling then \<not> settled (status_at g k)
      else status_at g k = SagaStepStatusPending \<or> status_at g k = SagaStepStatusRunning"
  shows "updateCandidate d err now g = Inr (phase_result now g k err)"
proof -
  have "validateClaimedStepIndex d (length (Steps g)) = None" using assms(1,2) by simp
  then show ?thesis using assms
    by (auto simp: updateCandidate_def phase_result_def settled_def Let_def
        simp del: validateClaimedStepIndex_None split: if_splits)
qed

context live_store
begin

lemma record_result:
  assumes "inv s" and "lookup s (claimed_SagaID d) = Some g" and "claimed_StepIndex d = int k"
    and "k < length (Steps g)"
    and "if Status g = SagaStatusCanceling then \<not> settled (status_at g k)
      else status_at g k = SagaStepStatusPending \<or> status_at g k = SagaStepStatusRunning"
  obtains s' where "updateClaimedStepAfterDispatch ops live stepNow now d err s = (None, s')" "inv s'"
    "lookup s' = (lookup s)(claimed_SagaID d \<mapsto> keep ((phase_result stepNow g k err)\<lparr>UpdatedAt := now\<rparr>))"
proof -
  have h: "updateCandidate d err stepNow g = Inr (phase_result stepNow g k err)"
    using assms(3-5) by (rule updateCandidate_phase)
  obtain e s' where up: "updateClaimedStepAfterDispatch ops live stepNow now d err s = (e, s')"
    by (cases "updateClaimedStepAfterDispatch ops live stepNow now d err s")
  have e: "e = None"
    using update_live [where fn = "updateCandidate d err stepNow" and now = now, OF assms(1,2) h] up
    by (auto simp: updateClaimedStepAfterDispatch_def)
  show thesis
    by (rule update_after_dispatch [OF assms(1) up]) (use e assms(2) h up that in auto)
qed

text \<open>With a live context, loading a claimed step never fails on a valid index.\<close>

lemma load_live:
  assumes "inv s" and "lookup s (claimed_SagaID d) = Some g" and "claimed_StepIndex d = int k"
    and "k < length (Steps g)"
  shows "\<exists>x. loadClaimedStepForDispatch ops live d s = Inr x"
proof -
  have "store_Get ops live (claimed_SagaID d) s = Inr g" using assms(1,2) by (rule get_live)
  moreover have "validateClaimedStepIndex d (length (Steps g)) = None" using assms(3,4) by simp
  ultimately show ?thesis
    by (auto simp: loadClaimedStepForDispatch_def Let_def simp del: validateClaimedStepIndex_None
        split: prod.splits)
qed

end

end
