(* ===== verification/Redis_Lock.thy ===== *)
theory Redis_Lock
  imports Go_Lib Saga_Locker
begin

text \<open>
  \<^verbatim>\<open>internal/lock/redis.go\<close>: the locker over Redis. The mutexes of the redsync library and the
  server they talk to are arguments: a record of the three calls the code makes, on a mutex value
  and a server state. What one round of the acquire loop sees is an \<open>attempt\<close>: what others did to
  the server before it, \<^verbatim>\<open>ctx.Err()\<close> after a failed call, and which case of the \<^verbatim>\<open>select\<close> ran.
\<close>

record ('r, 'm) redisMutex =
  LockContext :: "'m \<Rightarrow> 'r \<Rightarrow> error option \<times> 'm \<times> 'r"
  UnlockContext :: "'m \<Rightarrow> 'r \<Rightarrow> (bool \<times> error option) \<times> 'm \<times> 'r"
  ExtendContext :: "'m \<Rightarrow> 'r \<Rightarrow> (bool \<times> error option) \<times> 'm \<times> 'r"

text \<open>\<open>newMutex\<close> takes the name and the expiry; a \<^verbatim>\<open>closeFn\<close> of nil is \<open>None\<close>, otherwise its outcome.\<close>

record ('r, 'm) Redis =
  newMutex :: "string \<Rightarrow> duration \<Rightarrow> 'm"
  mutexOps :: "('r, 'm) redisMutex"
  prefix :: string
  retryInterval :: duration
  closeFn :: "error option option"

record 'm redisHandle =
  mutex :: 'm
  releaseOnce :: bool
  releaseErr :: "error option"

section \<open>Construction\<close>

text \<open>\<open>syncer\<close> is what \<^verbatim>\<open>redsync.New\<close> makes of a client.\<close>

definition newRedis ::
  "('c \<Rightarrow> (string \<Rightarrow> duration \<Rightarrow> 'm) \<times> ('r, 'm) redisMutex) \<Rightarrow> 'c \<Rightarrow> string \<Rightarrow> duration \<Rightarrow> error option option
   \<Rightarrow> error + ('r, 'm) Redis" where
  "newRedis syncer client pref interval closer =
     (if TrimSpace pref = '''' then Inl (Sentinel (RedisErr ErrInvalidPrefix))
      else if interval \<le> 0 then Inl (Sentinel (RedisErr ErrInvalidRetryInterval))
      else Inr \<lparr>newMutex = fst (syncer client), mutexOps = snd (syncer client), prefix = pref,
             retryInterval = interval, closeFn = closer\<rparr>)"

definition NewRedis ::
  "('c \<Rightarrow> (string \<Rightarrow> duration \<Rightarrow> 'm) \<times> ('r, 'm) redisMutex) \<Rightarrow> 'c option \<Rightarrow> string \<Rightarrow> duration
   \<Rightarrow> error + ('r, 'm) Redis" where
  "NewRedis syncer client pref interval =
     (case client of
        None \<Rightarrow> Inl (Opaque ''redis client must not be nil'')
      | Some c \<Rightarrow> newRedis syncer c pref interval None)"

text \<open>\<open>parseURL\<close> is \<^verbatim>\<open>redis.ParseURL\<close>, \<open>newClient\<close> \<^verbatim>\<open>redis.NewClient\<close>, \<open>closeClient\<close> the outcome of closing it.\<close>

definition NewRedisFromURL ::
  "(string \<Rightarrow> error + 'o) \<Rightarrow> ('o \<Rightarrow> 'c) \<Rightarrow> ('c \<Rightarrow> error option)
   \<Rightarrow> ('c \<Rightarrow> (string \<Rightarrow> duration \<Rightarrow> 'm) \<times> ('r, 'm) redisMutex) \<Rightarrow> string \<Rightarrow> string \<Rightarrow> duration
   \<Rightarrow> error + ('r, 'm) Redis" where
  "NewRedisFromURL parseURL newClient closeClient syncer redisURL pref interval =
     (let trimmedURL = TrimSpace redisURL
      in if trimmedURL = '''' then Inl (Sentinel (RedisErr ErrInvalidRedisURL))
         else case parseURL trimmedURL of
           Inl err \<Rightarrow> Inl err
         | Inr options \<Rightarrow>
             let client = newClient options
             in newRedis syncer client pref interval (Some (closeClient client)))"

definition Redis_Close :: "('r, 'm) Redis \<Rightarrow> error option" where
  "Redis_Close r = (case closeFn r of None \<Rightarrow> None | Some err \<Rightarrow> err)"

section \<open>Acquiring\<close>

definition isRaceError :: "error \<Rightarrow> bool" where
  "isRaceError err =
     (if errors_As err Redsync_ErrFailed then True
      else if errors_As err Redsync_ErrTaken then True
      else errors_As err Redsync_ErrNodeTaken)"

record 'r attempt =
  meanwhile :: "'r \<Rightarrow> 'r"
  ctxErr :: ctx
  doneErr :: ctx

text \<open>\<open>None\<close>: the loop is still waiting after the listed attempts.\<close>

fun Acquire_loop ::
  "('r, 'm) redisMutex \<Rightarrow> 'm \<Rightarrow> 'r attempt list \<Rightarrow> 'r \<Rightarrow> (error + 'm redisHandle) option \<times> 'r" where
  "Acquire_loop ops mtx [] srv = (None, srv)"
| "Acquire_loop ops mtx (a # rest) srv =
     (case LockContext ops mtx (meanwhile a srv) of
        (None, mtx', srv') \<Rightarrow> (Some (Inr \<lparr>mutex = mtx', releaseOnce = False, releaseErr = None\<rparr>), srv')
      | (Some err, mtx', srv') \<Rightarrow>
          (case ctxErr a of
             Some c \<Rightarrow> (Some (Inl (Sentinel (CtxErr c))), srv')
           | None \<Rightarrow>
               if \<not> isRaceError err then (Some (Inl err), srv')
               else case doneErr a of
                 Some c \<Rightarrow> (Some (Inl (Sentinel (CtxErr c))), srv')
               | None \<Rightarrow> Acquire_loop ops mtx' rest srv'))"

definition Redis_Acquire ::
  "('r, 'm) Redis \<Rightarrow> string \<Rightarrow> duration \<Rightarrow> 'r attempt list \<Rightarrow> 'r \<Rightarrow> (error + 'm redisHandle) option \<times> 'r" where
  "Redis_Acquire r key ttl attempts srv =
     (if ttl \<le> 0 then (Some (Inl (Sentinel (RedisErr ErrInvalidTTL))), srv)
      else
        let fullKey = prefix r @ key; mtx = newMutex r fullKey ttl
        in Acquire_loop (mutexOps r) mtx attempts srv)"

section \<open>The handle\<close>

definition Redis_Release ::
  "('r, 'm) redisMutex \<Rightarrow> 'm redisHandle \<Rightarrow> 'r \<Rightarrow> error option \<times> 'm redisHandle \<times> 'r" where
  "Redis_Release ops h srv =
     (if releaseOnce h then (releaseErr h, h, srv)
      else
        case UnlockContext ops (mutex h) srv of
          ((_, err), mtx', srv') \<Rightarrow>
            let h = h\<lparr>mutex := mtx', releaseOnce := True\<rparr>;
                h = (case err of
                       None \<Rightarrow> h
                     | Some e \<Rightarrow> if errors_As e Redsync_ErrLockAlreadyExpired then h else h\<lparr>releaseErr := Some e\<rparr>)
            in (releaseErr h, h, srv'))"



section \<open>Properties\<close>

text \<open>C35. Acquiring ends with its context, and waiting is not an error: whatever Redis answers, the loop
  has returned once one of its selects has seen the end of the context; the error it returns is that
  of an invalid time to live, the context's own, or a failure of Redis, never the mere fact that the
  lock is taken; and a handle is returned only after a successful lock call, unreleased.\<close>

theorem redis_acquire_ends:
  assumes "\<exists>a \<in> set attempts. doneErr a \<noteq> None"
  shows "\<exists>x srv'. Redis_Acquire r key ttl attempts srv = (Some x, srv')
    \<and> (case x of
         Inl e \<Rightarrow> e = Sentinel (RedisErr ErrInvalidTTL) \<and> ttl \<le> 0 \<or> (\<exists>c. e = Sentinel (CtxErr c))
           \<or> \<not> isRaceError e \<and> (\<exists>mtx srv1. fst (LockContext (mutexOps r) mtx srv1) = Some e)
       | Inr h \<Rightarrow> \<not> releaseOnce h \<and> (\<exists>mtx srv1. LockContext (mutexOps r) mtx srv1 = (None, mutex h, srv')))"
proof -
  have "\<exists>x srv'. Acquire_loop ops mtx attempts srv = (Some x, srv')
    \<and> (case x of
         Inl e \<Rightarrow> (\<exists>c. e = Sentinel (CtxErr c))
           \<or> \<not> isRaceError e \<and> (\<exists>mtx srv1. fst (LockContext ops mtx srv1) = Some e)
       | Inr h \<Rightarrow> \<not> releaseOnce h \<and> (\<exists>mtx srv1. LockContext ops mtx srv1 = (None, mutex h, srv')))"
    (is "?P mtx attempts srv") for ops :: "('a, 'b) redisMutex" and mtx
    using assms
  proof (induction attempts arbitrary: mtx srv)
    case (Cons a rest)
    obtain err mtx' srv' where lock: "LockContext ops mtx (meanwhile a srv) = (err, mtx', srv')"
      by (metis prod.exhaust)
    show ?case
    proof (cases "err = None \<or> ctxErr a \<noteq> None \<or> doneErr a \<noteq> None \<or> (\<exists>e. err = Some e \<and> \<not> isRaceError e)")
      case True
      then show ?thesis using lock
        by (cases err; cases "ctxErr a"; cases "doneErr a") (auto split: option.splits intro!: exI [of _ mtx] exI [of _ "meanwhile a srv"])
    next
      case False
      then have "Acquire_loop ops mtx (a # rest) srv = Acquire_loop ops mtx' rest srv'"
        using lock by (auto split: option.splits)
      moreover have "\<exists>a \<in> set rest. doneErr a \<noteq> None" using Cons.prems False by auto
      ultimately show ?thesis using Cons.IH by presburger
    qed
  qed simp
  from this [of "mutexOps r" "newMutex r (prefix r @ key) ttl"] show ?thesis
    by (auto simp: Redis_Acquire_def Let_def split: sum.splits)
qed

text \<open>A server that locks by name, as an example: it holds the names that are locked.\<close>

definition demo_mutex :: "(string list, string) redisMutex" where
  "demo_mutex = \<lparr>LockContext = (\<lambda>m srv. if List.member srv m then (Some (Foreign Redsync_ErrTaken ''taken''), m, srv) else (None, m, m # srv)),
     UnlockContext = (\<lambda>m srv. if List.member srv m then ((True, None), m, remove1 m srv)
       else ((False, Some (Foreign Redsync_ErrLockAlreadyExpired ''expired'')), m, srv)),
     ExtendContext = (\<lambda>m srv. ((List.member srv m, None), m, srv))\<rparr>"

definition demo_redis :: "(string list, string) Redis" where
  "demo_redis = \<lparr>newMutex = (\<lambda>name ttl. name), mutexOps = demo_mutex, prefix = ''saga:'', retryInterval = 50, closeFn = None\<rparr>"

definition demo_wait :: "context_error option \<Rightarrow> string list attempt" where
  "demo_wait e = \<lparr>meanwhile = (\<lambda>srv. srv), ctxErr = None, doneErr = e\<rparr>"

theorem redis_acquire_ends_witness:
  "\<exists>x srv'. Redis_Acquire demo_redis ''a'' 5 [demo_wait None, demo_wait (Some Canceled)] [''saga:a''] = (Some x, srv')"
  using redis_acquire_ends [of "[demo_wait None, demo_wait (Some Canceled)]" demo_redis "''a''" 5 "[''saga:a'']"]
  by (auto simp: demo_wait_def)




text \<open>Releasing is done once: a second release answers the same and does not touch the server.\<close>

lemma redis_release_once:
  assumes "Redis_Release ops h srv = (e, h', srv1)"
  shows "Redis_Release ops h' srv2 = (e, h', srv2)"
  using assms by (auto simp: Redis_Release_def Let_def split: if_splits prod.splits option.splits)

end
