(* ===== verification/Postgres.thy ===== *)
theory Postgres
  imports Step_Runner
begin

text \<open>
  \<^verbatim>\<open>internal/store/postgres.go\<close> over the tables of \<^verbatim>\<open>sql/schema/sagas.sql\<close> and the queries of
  \<^verbatim>\<open>sql/query/sagas.sql\<close>. A table is an association list under its unique key; each query is a
  function of the tables, and an operation of the store composes the queries in one
  transaction: a failing call leaves the tables as they were. What one operation meets outside
  this code is its \<open>pg_env\<close>: the database calls that fail, the server's clock, the rows other
  transactions have locked, and the text the server prints for a JSONB value. Instants are kept
  with microseconds; \<^verbatim>\<open>json.Marshal\<close>, the JSONB column and \<^verbatim>\<open>json.Unmarshal\<close> together keep a JSON
  value and turn nil maps and slices into null.
\<close>

section \<open>Tables\<close>

record saga_row =
  row_workflow :: string
  row_status :: string
  row_context :: context_map
  row_created_at :: time
  row_updated_at :: time

record step_row =
  srow_id :: int
  srow_name :: string
  srow_grpc_target :: string
  srow_status :: string
  srow_attempt :: int
  srow_started_at :: "time option"
  srow_finished_at :: "time option"
  srow_error :: "string option"
  srow_updated_at :: time

text \<open>
  The primary key of \<^verbatim>\<open>sagas\<close> is the identifier; \<^verbatim>\<open>saga_steps\<close> is unique in saga and step
  index, and its \<^verbatim>\<open>id\<close> comes from a sequence. (Its \<^verbatim>\<open>created_at\<close> is read by no query.)
\<close>

record pg_db =
  saga_rows :: "(string \<times> saga_row) list"
  step_rows :: "((string \<times> int) \<times> step_row) list"
  step_seq :: int

definition empty_db :: pg_db where
  "empty_db = \<lparr>saga_rows = [], step_rows = [], step_seq = 1\<rparr>"

section \<open>The outside\<close>

record pg_env =
  fault :: "nat \<Rightarrow> string option"
  marshalErr :: "string option"
  jsonbText :: "context_map \<Rightarrow> byte list"
  pgText :: "string \<Rightarrow> string"
  dbNow :: time
  lockedRow :: "int \<Rightarrow> bool"

text \<open>The \<open>n\<close>-th database call of an operation: it fails with its context, or with a library error.\<close>

definition db_call :: "pg_env \<Rightarrow> ctx \<Rightarrow> nat \<Rightarrow> error + 'a \<Rightarrow> error + 'a" where
  "db_call env ctx n r =
     (case ctx of Some err \<Rightarrow> Inl (Sentinel (CtxErr err))
      | None \<Rightarrow> (case fault env n of Some msg \<Rightarrow> Inl (Opaque msg) | None \<Rightarrow> r))"

definition serverError :: "pg_env \<Rightarrow> string \<Rightarrow> error" where
  "serverError env code = Foreign (PgError code) (pgText env code)"

text \<open>TIMESTAMPTZ keeps whole microseconds.\<close>

definition micro :: "time \<Rightarrow> time" where
  "micro t = t div 1000 * 1000"

definition db_NOW :: "pg_env \<Rightarrow> time" where
  "db_NOW env = micro (dbNow env)"

text \<open>The JSON value of a Go value: nil slices and maps are null.\<close>

primrec json_value :: "any \<Rightarrow> any" where
  "json_value ANil = ANil"
| "json_value (ABool b) = ABool b"
| "json_value (ANumber n) = ANumber n"
| "json_value (AString s) = AString s"
| "json_value (ASlice xs) = (case map_option (map json_value) xs of None \<Rightarrow> ANil | Some ys \<Rightarrow> ASlice (Some ys))"
| "json_value (AMap m) =
     (case map_option ((\<circ>) (map_option json_value)) m of None \<Rightarrow> ANil | Some m' \<Rightarrow> AMap (Some m'))"

definition json_context :: "context_map \<Rightarrow> context_map" where
  "json_context c = map_option ((\<circ>) (map_option json_value)) c"

section \<open>Conversions\<close>

text \<open>\<^verbatim>\<open>pgtype.Timestamptz\<close> and \<^verbatim>\<open>pgtype.Text\<close> are \<open>None\<close> when they are not valid.\<close>

definition toPGTime :: "time \<Rightarrow> time" where
  "toPGTime value = value"

definition toNullablePGTime :: "time option \<Rightarrow> time option" where
  "toNullablePGTime value = (case value of None \<Rightarrow> None | Some t \<Rightarrow> Some t)"

definition toTimePtr :: "time option \<Rightarrow> time option" where
  "toTimePtr value = (case value of None \<Rightarrow> None | Some t \<Rightarrow> Some t)"

definition toString :: "string option \<Rightarrow> string" where
  "toString value = (case value of None \<Rightarrow> '''' | Some s \<Rightarrow> s)"

definition toNullableText :: "string \<Rightarrow> string option" where
  "toNullableText value = (if TrimSpace value = '''' then None else Some value)"

definition isUniqueViolation :: "error \<Rightarrow> bool" where
  "isUniqueViolation err \<longleftrightarrow> errors_As err (PgError ''23505'')"

text \<open>\<^verbatim>\<open>int32(x)\<close> of an \<^verbatim>\<open>int\<close> is \<open>wrap32\<close>; \<^verbatim>\<open>int32(x)\<close> of a \<^verbatim>\<open>uint32\<close> is \<open>sint\<close>.\<close>

section \<open>Queries\<close>

definition saga_status_check :: "string \<Rightarrow> bool" where
  "saga_status_check s \<longleftrightarrow>
     s \<in> set [''CREATED'', ''RUNNING'', ''COMPLETED'', ''CANCELING'', ''COMPENSATED'', ''FAILED'']"

definition step_status_check :: "string \<Rightarrow> bool" where
  "step_status_check s \<longleftrightarrow>
     s \<in> set [''PENDING'', ''RUNNING'', ''COMPLETED'', ''COMPENSATING'', ''COMPENSATED'', ''FAILED'']"

definition sql_CreateSaga :: "pg_env \<Rightarrow> string \<Rightarrow> saga_row \<Rightarrow> pg_db \<Rightarrow> error + pg_db" where
  "sql_CreateSaga env sagaID row db =
     (if \<not> saga_status_check (row_status row) then Inl (serverError env ''23514'')
      else case map_of (saga_rows db) sagaID of
        Some _ \<Rightarrow> Inl (serverError env ''23505'')
      | None \<Rightarrow> Inr (db\<lparr>saga_rows := (sagaID, row) # saga_rows db\<rparr>))"

definition sql_UpdateSaga ::
  "pg_env \<Rightarrow> string \<Rightarrow> string \<Rightarrow> string \<Rightarrow> context_map \<Rightarrow> time \<Rightarrow> pg_db \<Rightarrow> error + pg_db" where
  "sql_UpdateSaga env sagaID workflow status sagaContext updatedAt db =
     (case map_of (saga_rows db) sagaID of
        None \<Rightarrow> Inr db
      | Some row \<Rightarrow>
          if \<not> saga_status_check status then Inl (serverError env ''23514'')
          else Inr (db\<lparr>saga_rows := AList.update sagaID (row\<lparr>row_workflow := workflow, row_status := status,
            row_context := sagaContext, row_updated_at := updatedAt\<rparr>) (saga_rows db)\<rparr>))"

text \<open>\<^verbatim>\<open>GetSaga\<close> and \<^verbatim>\<open>GetSagaForUpdate\<close> return the same row.\<close>

definition sql_GetSaga :: "pg_env \<Rightarrow> string \<Rightarrow> pg_db \<Rightarrow> error + saga_row" where
  "sql_GetSaga env sagaID db =
     (case map_of (saga_rows db) sagaID of
        None \<Rightarrow> Inl (Foreign Pgx_ErrNoRows (pgText env ''no rows''))
      | Some row \<Rightarrow> Inr row)"

text \<open>\<^verbatim>\<open>ListSagas\<close> and \<^verbatim>\<open>ListSagasByStatus\<close>; a negative limit or offset is an error of the server.\<close>

definition sql_ListSagas ::
  "pg_env \<Rightarrow> string option \<Rightarrow> int \<Rightarrow> int \<Rightarrow> pg_db \<Rightarrow> error + (string \<times> saga_row) list" where
  "sql_ListSagas env status lim off db =
     (if lim < 0 then Inl (serverError env ''2201W'')
      else if off < 0 then Inl (serverError env ''2201X'')
      else Inr (take (nat lim) (drop (nat off)
        (sort_key (\<lambda>(i, row). (row_created_at row, i))
          (filter (\<lambda>(i, row). status = None \<or> status = Some (row_status row)) (saga_rows db))))))"

definition sql_DeleteSagaStepsFromIndex :: "string \<Rightarrow> int \<Rightarrow> pg_db \<Rightarrow> pg_db" where
  "sql_DeleteSagaStepsFromIndex sagaID stepIndex db =
     db\<lparr>step_rows := filter (\<lambda>((i, k), row). \<not> (i = sagaID \<and> k \<ge> stepIndex)) (step_rows db)\<rparr>"

text \<open>
  \<^verbatim>\<open>UpsertSagaStep\<close>: \<open>row\<close> holds the proposed columns. The sequence moves on even when the row
  exists and is updated; then the row keeps its id, and its instant of change unless a column
  differs.
\<close>

definition sql_UpsertSagaStep ::
  "pg_env \<Rightarrow> string \<Rightarrow> int \<Rightarrow> step_row \<Rightarrow> pg_db \<Rightarrow> error + pg_db" where
  "sql_UpsertSagaStep env sagaID stepIndex row db =
     (if stepIndex < 0 \<or> \<not> step_status_check (srow_status row) \<or> srow_attempt row < 0
      then Inl (serverError env ''23514'')
      else
        let new = (case map_of (step_rows db) (sagaID, stepIndex) of
              None \<Rightarrow> row\<lparr>srow_id := step_seq db, srow_updated_at := db_NOW env\<rparr>
            | Some old \<Rightarrow> row\<lparr>srow_id := srow_id old,
                srow_updated_at :=
                  (if srow_name old \<noteq> srow_name row \<or> srow_grpc_target old \<noteq> srow_grpc_target row
                      \<or> srow_status old \<noteq> srow_status row \<or> srow_attempt old \<noteq> srow_attempt row
                      \<or> srow_started_at old \<noteq> srow_started_at row
                      \<or> srow_finished_at old \<noteq> srow_finished_at row \<or> srow_error old \<noteq> srow_error row
                   then db_NOW env else srow_updated_at old)\<rparr>)
        in Inr (db\<lparr>step_rows := AList.update (sagaID, stepIndex) new (step_rows db),
                  step_seq := step_seq db + 1\<rparr>))"

text \<open>\<^verbatim>\<open>GetSagaSteps\<close> and \<^verbatim>\<open>GetSagaStepsForUpdate\<close> return the same rows.\<close>

definition sql_GetSagaSteps :: "string \<Rightarrow> pg_db \<Rightarrow> step_row list" where
  "sql_GetSagaSteps sagaID db =
     map snd (sort_key (\<lambda>((i, k), row). k) (filter (\<lambda>((i, k), row). i = sagaID) (step_rows db)))"

text \<open>The condition of the candidate query on a step row joined with its saga.\<close>

definition started_before :: "time \<Rightarrow> step_row \<Rightarrow> bool" where
  "started_before threshold row = (case srow_started_at row of None \<Rightarrow> False | Some t \<Rightarrow> t \<le> threshold)"

definition sql_candidate :: "pg_db \<Rightarrow> time \<Rightarrow> (string \<times> int) \<times> step_row \<Rightarrow> bool" where
  "sql_candidate db threshold = (\<lambda>((i, k), row).
     (case map_of (saga_rows db) i of
        None \<Rightarrow> False
      | Some s \<Rightarrow>
          (row_status s = ''CREATED'' \<or> row_status s = ''RUNNING'')
          \<and> (srow_status row = ''PENDING'' \<or> srow_status row = ''RUNNING'' \<and> started_before threshold row)
          \<and> list_all (\<lambda>((j, l), prev). \<not> (j = i \<and> l < k \<and> srow_status prev \<noteq> ''COMPLETED'')) (step_rows db)
        \<or> row_status s = ''CANCELING''
          \<and> (srow_status row = ''COMPLETED'' \<or> srow_status row = ''RUNNING''
             \<or> srow_status row = ''COMPENSATING'' \<and> started_before threshold row)
          \<and> list_all (\<lambda>((j, l), nxt). \<not> (j = i \<and> l > k \<and> (srow_status nxt = ''COMPLETED''
              \<or> srow_status nxt = ''RUNNING'' \<or> srow_status nxt = ''COMPENSATING''))) (step_rows db)))"

definition sql_ClaimNextStep ::
  "pg_env \<Rightarrow> time \<Rightarrow> pg_db \<Rightarrow> error + (string \<times> int \<times> string \<times> int) \<times> pg_db" where
  "sql_ClaimNextStep env threshold db =
     (case sort_key (\<lambda>(key, row). (srow_updated_at row, srow_id row))
        (filter (\<lambda>p. sql_candidate db threshold p \<and> \<not> lockedRow env (srow_id (snd p))) (step_rows db)) of
        [] \<Rightarrow> Inl (Foreign Pgx_ErrNoRows (pgText env ''no rows''))
      | ((i, k), row) # _ \<Rightarrow>
          if srow_attempt row + 1 > 2147483647 then Inl (serverError env ''22003'')
          else
            let nextStatus = (if map_option row_status (map_of (saga_rows db) i) = Some ''CANCELING''
                              then ''COMPENSATING'' else ''RUNNING'');
                row = row\<lparr>srow_status := nextStatus, srow_attempt := srow_attempt row + 1,
                  srow_started_at := (case srow_started_at row of None \<Rightarrow> Some (db_NOW env) | Some t \<Rightarrow> Some t),
                  srow_finished_at := None, srow_error := None, srow_updated_at := db_NOW env\<rparr>
            in Inr ((i, k, srow_name row, srow_attempt row),
                    db\<lparr>step_rows := AList.update (i, k) row (step_rows db)\<rparr>))"

section \<open>Rows as domain values\<close>

definition Postgres_parseContext :: "pg_env \<Rightarrow> context_map \<Rightarrow> error + context_map" where
  "Postgres_parseContext env stored =
     (case ParseSagaContext (\<lambda>_. Inr stored) (jsonbText env stored) of
        Inl err \<Rightarrow> Inl (wrap_cause (PostgresErr ErrStoreSagaContext) err)
      | Inr parsed \<Rightarrow> Inr parsed)"

definition mapSagaRow :: "pg_env \<Rightarrow> string \<Rightarrow> saga_row \<Rightarrow> error + Saga" where
  "mapSagaRow env sagaID row =
     (case ParseSagaStatus (row_status row) of
        Inl _ \<Rightarrow> Inl (Opaque (''unsupported saga status '' @ fmt_q (row_status row)))
      | Inr status \<Rightarrow>
        (case Postgres_parseContext env (row_context row) of
           Inl err \<Rightarrow> Inl err
         | Inr sagaContext \<Rightarrow>
             Inr \<lparr>ID = sagaID, Workflow = row_workflow row, Status = status, Context = sagaContext,
               Steps = [], CreatedAt = row_created_at row, UpdatedAt = row_updated_at row\<rparr>))"

definition mapStepRow ::
  "string \<Rightarrow> string \<Rightarrow> string \<Rightarrow> int \<Rightarrow> time option \<Rightarrow> time option \<Rightarrow> string option \<Rightarrow> error + SagaStep" where
  "mapStepRow name grpcTarget statusRaw attempt startedAt finishedAt errText =
     (case ParseSagaStepStatus statusRaw of
        Inl _ \<Rightarrow> Inl (Opaque (''unsupported saga step status '' @ fmt_q statusRaw))
      | Inr status \<Rightarrow>
          Inr \<lparr>step_Name = name, GRPCTarget = grpcTarget, step_Status = status,
            Attempt = word_of_int attempt, StartedAt = toTimePtr startedAt,
            FinishedAt = toTimePtr finishedAt, step_Error = toString errText\<rparr>)"

fun mapRows :: "'a list \<Rightarrow> ('a \<Rightarrow> error + SagaStep) \<Rightarrow> SagaStep list \<Rightarrow> error + SagaStep list" where
  "mapRows [] mapper mapped = Inr mapped"
| "mapRows (value # rest) mapper mapped =
     (case mapper value of Inl err \<Rightarrow> Inl err | Inr result \<Rightarrow> mapRows rest mapper (mapped @ [result]))"

definition mapStepRows :: "step_row list \<Rightarrow> error + SagaStep list" where
  "mapStepRows rows = mapRows rows (\<lambda>row. mapStepRow (srow_name row) (srow_grpc_target row) (srow_status row)
     (srow_attempt row) (srow_started_at row) (srow_finished_at row) (srow_error row)) []"

definition fetchSteps :: "pg_env \<Rightarrow> ctx \<Rightarrow> nat \<Rightarrow> string \<Rightarrow> pg_db \<Rightarrow> error + SagaStep list" where
  "fetchSteps env ctx n sagaID db =
     (case db_call env ctx n (Inr (sql_GetSagaSteps sagaID db)) of
        Inl err \<Rightarrow> Inl err | Inr rows \<Rightarrow> mapStepRows rows)"

section \<open>The operations\<close>

text \<open>
  \<^verbatim>\<open>replaceSteps\<close> from the step at \<open>index\<close> on; \<open>n\<close> numbers the database calls. The proposed row
  carries no id and no instant of change: the query sets them.
\<close>

fun replaceSteps_loop ::
  "pg_env \<Rightarrow> ctx \<Rightarrow> nat \<Rightarrow> string \<Rightarrow> nat \<Rightarrow> SagaStep list \<Rightarrow> pg_db \<Rightarrow> error + pg_db" where
  "replaceSteps_loop env ctx n sagaID index [] db = Inr db"
| "replaceSteps_loop env ctx n sagaID index (step # steps) db =
     (case db_call env ctx n (sql_UpsertSagaStep env sagaID (wrap32 (int index))
        \<lparr>srow_id = 0, srow_name = step_Name step, srow_grpc_target = GRPCTarget step,
         srow_status = step_status_string (step_Status step), srow_attempt = sint (Attempt step),
         srow_started_at = map_option micro (toNullablePGTime (StartedAt step)),
         srow_finished_at = map_option micro (toNullablePGTime (FinishedAt step)),
         srow_error = toNullableText (step_Error step), srow_updated_at = 0\<rparr> db) of
        Inl err \<Rightarrow> Inl err
      | Inr db' \<Rightarrow> replaceSteps_loop env ctx (n + 1) sagaID (index + 1) steps db')"

definition replaceSteps ::
  "pg_env \<Rightarrow> ctx \<Rightarrow> nat \<Rightarrow> string \<Rightarrow> SagaStep list \<Rightarrow> pg_db \<Rightarrow> error + pg_db" where
  "replaceSteps env ctx n sagaID steps db =
     (case replaceSteps_loop env ctx n sagaID 0 steps db of
        Inl err \<Rightarrow> Inl err
      | Inr db' \<Rightarrow> db_call env ctx (n + length steps)
          (Inr (sql_DeleteSagaStepsFromIndex sagaID (wrap32 (int (length steps))) db')))"

definition Postgres_Create :: "pg_env \<Rightarrow> ctx \<Rightarrow> Saga \<Rightarrow> pg_db \<Rightarrow> error option \<times> pg_db" where
  "Postgres_Create env ctx saga db =
     (case marshalErr env of
        Some err \<Rightarrow> (Some (Opaque err), db)
      | None \<Rightarrow>
        (case db_call env ctx 0 (Inr ()) of
           Inl err \<Rightarrow> (Some err, db)
         | Inr _ \<Rightarrow>
           (case db_call env ctx 1 (sql_CreateSaga env (ID saga)
              \<lparr>row_workflow = Workflow saga, row_status = saga_status_string (Status saga),
               row_context = json_context (Context saga),
               row_created_at = micro (toPGTime (CreatedAt saga)),
               row_updated_at = micro (toPGTime (UpdatedAt saga))\<rparr> db) of
              Inl createErr \<Rightarrow>
                (if isUniqueViolation createErr then (Some (Sentinel (StoreErr ErrAlreadyExists)), db)
                 else (Some createErr, db))
            | Inr db1 \<Rightarrow>
              (case replaceSteps env ctx 2 (ID saga) (Steps saga) db1 of
                 Inl stepsErr \<Rightarrow> (Some stepsErr, db)
               | Inr db2 \<Rightarrow>
                 (case db_call env ctx (length (Steps saga) + 3) (Inr ()) of
                    Inl commitErr \<Rightarrow> (Some commitErr, db)
                  | Inr _ \<Rightarrow> (None, db2))))))"

definition mapNoRows :: "error \<Rightarrow> error" where
  "mapNoRows err = (if errors_As err Pgx_ErrNoRows then Sentinel (StoreErr ErrNotFound) else err)"

definition Postgres_Get :: "pg_env \<Rightarrow> ctx \<Rightarrow> string \<Rightarrow> pg_db \<Rightarrow> error + Saga" where
  "Postgres_Get env ctx sagaID db =
     (case db_call env ctx 0 (Inr ()) of
        Inl err \<Rightarrow> Inl err
      | Inr _ \<Rightarrow>
        (case db_call env ctx 1 (sql_GetSaga env sagaID db) of
           Inl err \<Rightarrow> Inl (mapNoRows err)
         | Inr sagaRow \<Rightarrow>
           (case mapSagaRow env sagaID sagaRow of
              Inl mapErr \<Rightarrow> Inl mapErr
            | Inr saga \<Rightarrow>
              (case fetchSteps env ctx 2 sagaID db of
                 Inl stepsErr \<Rightarrow> Inl stepsErr
               | Inr steps \<Rightarrow>
                 (case db_call env ctx 3 (Inr ()) of
                    Inl commitErr \<Rightarrow> Inl commitErr
                  | Inr _ \<Rightarrow> Inr (saga\<lparr>Steps := steps\<rparr>))))))"

fun Postgres_List_loop ::
  "pg_env \<Rightarrow> ctx \<Rightarrow> nat \<Rightarrow> (string \<times> saga_row) list \<Rightarrow> Saga list \<Rightarrow> pg_db \<Rightarrow> error + Saga list" where
  "Postgres_List_loop env ctx n [] sagas db = db_call env ctx n (Inr sagas)"
| "Postgres_List_loop env ctx n ((i, sagaRow) # rows) sagas db =
     (case mapSagaRow env i sagaRow of
        Inl mapErr \<Rightarrow> Inl mapErr
      | Inr saga \<Rightarrow>
        (case fetchSteps env ctx n (ID saga) db of
           Inl stepsErr \<Rightarrow> Inl stepsErr
         | Inr steps \<Rightarrow> Postgres_List_loop env ctx (n + 1) rows (sagas @ [saga\<lparr>Steps := steps\<rparr>]) db))"

definition Postgres_List ::
  "pg_env \<Rightarrow> ctx \<Rightarrow> SagaStatus option \<Rightarrow> int \<Rightarrow> int \<Rightarrow> pg_db \<Rightarrow> error + Saga list" where
  "Postgres_List env ctx status lim off db =
     (if lim < 0 \<or> off < 0 then Inl (Sentinel (StoreErr ErrStorePagination))
      else case db_call env ctx 0 (Inr ()) of
        Inl err \<Rightarrow> Inl err
      | Inr _ \<Rightarrow>
        let safeLimit = wrap32 lim; safeOffset = wrap32 off
        in case db_call env ctx 1 (sql_ListSagas env (map_option saga_status_string status) safeLimit safeOffset db) of
             Inl err \<Rightarrow> Inl err
           | Inr sagaRows \<Rightarrow> Postgres_List_loop env ctx 2 sagaRows [] db)"

definition Postgres_Update ::
  "pg_env \<Rightarrow> ctx \<Rightarrow> time \<Rightarrow> string \<Rightarrow> (Saga \<Rightarrow> error + Saga) \<Rightarrow> pg_db \<Rightarrow> (error + Saga) \<times> pg_db" where
  "Postgres_Update env ctx now sagaID fn db =
     (case db_call env ctx 0 (Inr ()) of
        Inl err \<Rightarrow> (Inl err, db)
      | Inr _ \<Rightarrow>
        (case db_call env ctx 1 (sql_GetSaga env sagaID db) of
           Inl sagaErr \<Rightarrow> (Inl (mapNoRows sagaErr), db)
         | Inr sagaRow \<Rightarrow>
           (case mapSagaRow env sagaID sagaRow of
              Inl mapErr \<Rightarrow> (Inl mapErr, db)
            | Inr saga \<Rightarrow>
              (case fetchSteps env ctx 2 sagaID db of
                 Inl stepErr \<Rightarrow> (Inl stepErr, db)
               | Inr steps \<Rightarrow>
                 (case fn (saga\<lparr>Steps := steps\<rparr>) of
                    Inl fnErr \<Rightarrow> (Inl fnErr, db)
                  | Inr saga \<Rightarrow>
                    (case marshalErr env of
                       Some contextErr \<Rightarrow> (Inl (Opaque contextErr), db)
                     | None \<Rightarrow>
                       let saga = saga\<lparr>UpdatedAt := now\<rparr>
                       in case db_call env ctx 3 (sql_UpdateSaga env (ID saga) (Workflow saga)
                                 (saga_status_string (Status saga)) (json_context (Context saga))
                                 (micro (toPGTime (UpdatedAt saga))) db) of
                            Inl updateErr \<Rightarrow> (Inl updateErr, db)
                          | Inr db1 \<Rightarrow>
                            (case replaceSteps env ctx 4 (ID saga) (Steps saga) db1 of
                               Inl replaceErr \<Rightarrow> (Inl replaceErr, db)
                             | Inr db2 \<Rightarrow>
                               (case db_call env ctx (length (Steps saga) + 5) (Inr ()) of
                                  Inl commitErr \<Rightarrow> (Inl commitErr, db)
                                | Inr _ \<Rightarrow> (Inr (Clone saga), db2)))))))))"

definition Postgres_ClaimNextStep ::
  "pg_env \<Rightarrow> ctx \<Rightarrow> time \<Rightarrow> duration \<Rightarrow> pg_db \<Rightarrow> (error + ClaimedSagaStep option) \<times> pg_db" where
  "Postgres_ClaimNextStep env ctx now staleAfter db =
     (let staleThreshold = now - staleAfter
      in case db_call env ctx 0 (sql_ClaimNextStep env (micro (toPGTime staleThreshold)) db) of
           Inl err \<Rightarrow> if errors_As err Pgx_ErrNoRows then (Inr None, db) else (Inl err, db)
         | Inr ((i, k, name, attempt), db') \<Rightarrow>
             (Inr (Some \<lparr>claimed_SagaID = i, claimed_StepIndex = k, claimed_Name = name,
                claimed_Attempt = word_of_int attempt\<rparr>), db'))"

definition postgres_store :: "pg_env \<Rightarrow> pg_db stepQueueStore" where
  "postgres_store env =
     \<lparr>store_Create = Postgres_Create env, store_Get = Postgres_Get env, store_List = Postgres_List env,
      store_Update = Postgres_Update env, store_ClaimNextStep = Postgres_ClaimNextStep env\<rparr>"

section \<open>Opening and migrating\<close>

text \<open>\<open>newPool\<close> and \<open>ping\<close> are the outcomes of \<^verbatim>\<open>pgxpool.New\<close> and \<^verbatim>\<open>Ping\<close>, \<open>exec\<close> that of running SQL.\<close>

definition NewPostgres :: "string \<Rightarrow> (string \<Rightarrow> error option) \<Rightarrow> error option \<Rightarrow> error option" where
  "NewPostgres connectionString newPool ping =
     (let trimmedConnectionString = TrimSpace connectionString
      in if trimmedConnectionString = '''' then Some (Sentinel (PostgresErr ErrInvalidPostgresConnectionString))
         else case newPool trimmedConnectionString of Some err \<Rightarrow> Some err | None \<Rightarrow> ping)"

definition Migrate :: "(string \<Rightarrow> error option) \<Rightarrow> string \<Rightarrow> error option" where
  "Migrate exec migrationSQL = (if TrimSpace migrationSQL = '''' then None else exec migrationSQL)"

end
