(* ===== verification/Memory.thy ===== *)
theory Memory
  imports Step_Runner
begin

text \<open>
  \<^verbatim>\<open>internal/store/memory.go\<close>: the in-memory store. The Go map from identifiers to sagas is an
  association list; its order is one order \<^verbatim>\<open>range\<close> may visit the map in, and the results do
  not depend on it. \<^verbatim>\<open>sort.Slice\<close> by creation instant, then identifier, is \<open>sort_key\<close>: the
  identifiers are distinct, so the sorted list is unique. The mutex makes each operation one
  atomic step. The theory ends with the interpretation of the store laws on the operations.
\<close>

record Memory =
  sagas :: "(string \<times> Saga) list"

definition NewMemory :: Memory where
  "NewMemory = \<lparr>sagas = []\<rparr>"

section \<open>Create, Get, List, Update\<close>

definition Memory_Create :: "ctx \<Rightarrow> Saga \<Rightarrow> Memory \<Rightarrow> error option \<times> Memory" where
  "Memory_Create ctx saga m =
     (case ctx of Some err \<Rightarrow> (Some (Sentinel (CtxErr err)), m)
      | None \<Rightarrow>
        (case map_of (sagas m) (ID saga) of
           Some _ \<Rightarrow> (Some (Sentinel (StoreErr ErrAlreadyExists)), m)
         | None \<Rightarrow> (None, m\<lparr>sagas := AList.update (ID saga) (Clone saga) (sagas m)\<rparr>)))"

definition Memory_Get :: "ctx \<Rightarrow> string \<Rightarrow> Memory \<Rightarrow> error + Saga" where
  "Memory_Get ctx sagaID m =
     (case ctx of Some err \<Rightarrow> Inl (Sentinel (CtxErr err))
      | None \<Rightarrow>
        (case map_of (sagas m) sagaID of
           None \<Rightarrow> Inl (Sentinel (StoreErr ErrNotFound))
         | Some saga \<Rightarrow> Inr (Clone saga)))"

definition saga_order :: "Saga \<Rightarrow> time \<times> string" where
  "saga_order saga = (CreatedAt saga, ID saga)"

text \<open>A slice expression \<^verbatim>\<open>xs[lo:hi]\<close> panics unless \<^verbatim>\<open>0 <= lo <= hi <= len(xs)\<close>.\<close>

definition slice :: "'a list \<Rightarrow> int \<Rightarrow> int \<Rightarrow> error + 'a list" where
  "slice xs lo hi =
     (if 0 \<le> lo \<and> lo \<le> hi \<and> hi \<le> int (length xs)
      then Inr (take (nat (hi - lo)) (drop (nat lo) xs))
      else Inl (Panicked ''slice bounds out of range''))"

definition matches :: "SagaStatus option \<Rightarrow> Saga \<Rightarrow> bool" where
  "matches status saga = (case status of None \<Rightarrow> True | Some s \<Rightarrow> Status saga = s)"

definition Memory_List :: "ctx \<Rightarrow> SagaStatus option \<Rightarrow> int \<Rightarrow> int \<Rightarrow> Memory \<Rightarrow> error + Saga list" where
  "Memory_List ctx status limit offset m =
     (case ctx of Some err \<Rightarrow> Inl (Sentinel (CtxErr err))
      | None \<Rightarrow>
        if limit < 0 \<or> offset < 0 then Inl (Sentinel (StoreErr ErrStorePagination))
        else
          let matching = map Clone (filter (matches status) (map snd (sagas m)));
              ordered = sort_key saga_order matching
          in if offset \<ge> int (length ordered) then Inr []
             else
               let endIndex = (if limit > 0 \<and> wrap64 (offset + limit) < int (length ordered)
                          then wrap64 (offset + limit) else int (length ordered))
               in slice ordered offset endIndex)"

definition Memory_Update ::
  "ctx \<Rightarrow> time \<Rightarrow> string \<Rightarrow> (Saga \<Rightarrow> error + Saga) \<Rightarrow> Memory \<Rightarrow> (error + Saga) \<times> Memory" where
  "Memory_Update ctx now sagaID fn m =
     (case ctx of Some err \<Rightarrow> (Inl (Sentinel (CtxErr err)), m)
      | None \<Rightarrow>
        (case map_of (sagas m) sagaID of
           None \<Rightarrow> (Inl (Sentinel (StoreErr ErrNotFound)), m)
         | Some saga \<Rightarrow>
             (case fn (Clone saga) of
                Inl err \<Rightarrow> (Inl err, m)
              | Inr updated \<Rightarrow>
                  let updated = updated\<lparr>UpdatedAt := now\<rparr>
                  in (Inr (Clone updated), m\<lparr>sagas := AList.update sagaID updated (sagas m)\<rparr>))))"

section \<open>Claiming the next step\<close>

definition isStepStale :: "SagaStep \<Rightarrow> SagaStepStatus \<Rightarrow> duration \<Rightarrow> time \<Rightarrow> bool" where
  "isStepStale step expectedStatus staleAfter now \<longleftrightarrow>
     step_Status step = expectedStatus
     \<and> (case StartedAt step of None \<Rightarrow> False | Some t \<Rightarrow> time_Sub now t \<ge> staleAfter)"

definition allPreviousStepsAreCompleted :: "SagaStep list \<Rightarrow> nat \<Rightarrow> bool" where
  "allPreviousStepsAreCompleted steps currentIndex =
     list_all (\<lambda>index. step_Status (steps ! index) = SagaStepStatusCompleted) [0..<currentIndex]"

definition allNextStepsAreSettledForCompensation :: "SagaStep list \<Rightarrow> nat \<Rightarrow> bool" where
  "allNextStepsAreSettledForCompensation steps currentIndex =
     list_all (\<lambda>index. \<not> (step_Status (steps ! index) = SagaStepStatusCompleted
                       \<or> step_Status (steps ! index) = SagaStepStatusRunning
                       \<or> step_Status (steps ! index) = SagaStepStatusCompensating))
       [currentIndex + 1..<length steps]"

fun claimExecutionStep_loop ::
  "duration \<Rightarrow> time \<Rightarrow> Saga \<Rightarrow> nat list \<Rightarrow> (ClaimedSagaStep \<times> Saga) option" where
  "claimExecutionStep_loop staleAfter now saga [] = None"
| "claimExecutionStep_loop staleAfter now saga (index # rest) =
     (if \<not> allPreviousStepsAreCompleted (Steps saga) index
      then claimExecutionStep_loop staleAfter now saga rest
      else
        let step = Steps saga ! index;
            isPending = (step_Status step = SagaStepStatusPending)
        in if \<not> isPending \<and> \<not> isStepStale step SagaStepStatusRunning staleAfter now
           then claimExecutionStep_loop staleAfter now saga rest
           else
             let step = step\<lparr>step_Status := SagaStepStatusRunning, Attempt := Attempt step + 1,
                          StartedAt := Some now, FinishedAt := None, step_Error := ''''\<rparr>;
                 saga = saga\<lparr>Steps := (Steps saga)[index := step], UpdatedAt := now\<rparr>
             in Some (\<lparr>claimed_SagaID = ID saga, claimed_StepIndex = int index,
                       claimed_Name = step_Name step, claimed_Attempt = Attempt step\<rparr>, saga))"

definition claimExecutionStep ::
  "Saga \<Rightarrow> duration \<Rightarrow> time \<Rightarrow> (ClaimedSagaStep \<times> Saga) option" where
  "claimExecutionStep saga staleAfter now =
     claimExecutionStep_loop staleAfter now saga [0..<length (Steps saga)]"

fun claimCompensationStep_loop ::
  "duration \<Rightarrow> time \<Rightarrow> Saga \<Rightarrow> nat list \<Rightarrow> (ClaimedSagaStep \<times> Saga) option" where
  "claimCompensationStep_loop staleAfter now saga [] = None"
| "claimCompensationStep_loop staleAfter now saga (index # rest) =
     (if \<not> allNextStepsAreSettledForCompensation (Steps saga) index
      then claimCompensationStep_loop staleAfter now saga rest
      else
        let step = Steps saga ! index;
            isCompleted = (step_Status step = SagaStepStatusCompleted);
            isRunning = (step_Status step = SagaStepStatusRunning);
            isStaleCompensating = isStepStale step SagaStepStatusCompensating staleAfter now
        in if \<not> isCompleted \<and> \<not> isRunning \<and> \<not> isStaleCompensating
           then claimCompensationStep_loop staleAfter now saga rest
           else
             let step = step\<lparr>step_Status := SagaStepStatusCompensating, Attempt := Attempt step + 1,
                          StartedAt := Some now, FinishedAt := None, step_Error := ''''\<rparr>;
                 saga = saga\<lparr>Steps := (Steps saga)[index := step], UpdatedAt := now\<rparr>
             in Some (\<lparr>claimed_SagaID = ID saga, claimed_StepIndex = int index,
                       claimed_Name = step_Name step, claimed_Attempt = Attempt step\<rparr>, saga))"

definition claimCompensationStep ::
  "Saga \<Rightarrow> duration \<Rightarrow> time \<Rightarrow> (ClaimedSagaStep \<times> Saga) option" where
  "claimCompensationStep saga staleAfter now =
     claimCompensationStep_loop staleAfter now saga (rev [0..<length (Steps saga)])"

text \<open>The body of the loop over the ordered sagas: the switch on the saga's status.\<close>

definition claimSagaStep :: "duration \<Rightarrow> time \<Rightarrow> Saga \<Rightarrow> (ClaimedSagaStep \<times> Saga) option" where
  "claimSagaStep staleAfter now saga =
     (case Status saga of
        SagaStatusCreated \<Rightarrow> claimExecutionStep saga staleAfter now
      | SagaStatusRunning \<Rightarrow> claimExecutionStep saga staleAfter now
      | SagaStatusCanceling \<Rightarrow> claimCompensationStep saga staleAfter now
      | _ \<Rightarrow> None)"

fun claim_loop :: "duration \<Rightarrow> time \<Rightarrow> Saga list \<Rightarrow> Memory \<Rightarrow> ClaimedSagaStep option \<times> Memory" where
  "claim_loop staleAfter now [] m = (None, m)"
| "claim_loop staleAfter now (saga # rest) m =
     (case claimSagaStep staleAfter now saga of
        Some (claimed, saga') \<Rightarrow>
          (Some claimed, m\<lparr>sagas := AList.update (ID saga') saga' (sagas m)\<rparr>)
      | None \<Rightarrow> claim_loop staleAfter now rest m)"

definition Memory_ClaimNextStep ::
  "ctx \<Rightarrow> time \<Rightarrow> duration \<Rightarrow> Memory \<Rightarrow> (error + ClaimedSagaStep option) \<times> Memory" where
  "Memory_ClaimNextStep ctx now staleAfter m =
     (case ctx of Some err \<Rightarrow> (Inl (Sentinel (CtxErr err)), m)
      | None \<Rightarrow>
        let orderedSagas = sort_key saga_order (map Clone (map snd (sagas m)));
            (claimed, m') = claim_loop staleAfter now orderedSagas m
        in (Inr claimed, m'))"

definition memory_store :: "Memory stepQueueStore" where
  "memory_store =
     \<lparr>store_Create = Memory_Create, store_Get = Memory_Get, store_List = Memory_List,
      store_Update = Memory_Update, store_ClaimNextStep = Memory_ClaimNextStep\<rparr>"

section \<open>The invariant and the abstraction\<close>

definition memory_inv :: "Memory \<Rightarrow> bool" where
  "memory_inv m \<longleftrightarrow> distinct (map fst (sagas m)) \<and> list_all (\<lambda>(k, g). ID g = k) (sagas m)"

definition memory_lookup :: "Memory \<Rightarrow> string \<Rightarrow> Saga option" where
  "memory_lookup m sagaID = map_option Clone (map_of (sagas m) sagaID)"

lemma memory_inv_New: "memory_inv NewMemory"
  by (simp add: memory_inv_def NewMemory_def)

lemma memory_lookup_New [simp]: "memory_lookup NewMemory = Map.empty"
  by (simp add: memory_lookup_def NewMemory_def fun_eq_iff)

lemma memory_inv_update:
  "memory_inv m \<Longrightarrow> ID g = i \<Longrightarrow> memory_inv (m\<lparr>sagas := AList.update i g (sagas m)\<rparr>)"
  by (auto simp: memory_inv_def distinct_update list_all_iff set_alist_update)

lemma memory_lookup_update:
  "memory_lookup (m\<lparr>sagas := AList.update i g (sagas m)\<rparr>) = (memory_lookup m)(i \<mapsto> Clone g)"
  by (auto simp: memory_lookup_def map_of_update)

lemma memory_map_of_ID: "memory_inv m \<Longrightarrow> map_of (sagas m) i = Some g \<Longrightarrow> ID g = i"
  by (auto simp: memory_inv_def list_all_iff dest!: map_of_SomeD)

section \<open>Which step the loops find\<close>

lemma allPrevious_iff:
  "allPreviousStepsAreCompleted steps k \<longleftrightarrow> (\<forall>i < k. step_Status (steps ! i) = SagaStepStatusCompleted)"
  by (auto simp: allPreviousStepsAreCompleted_def list_all_iff)

lemma allNext_iff:
  "allNextStepsAreSettledForCompensation steps k \<longleftrightarrow>
   (\<forall>i. k < i \<and> i < length steps \<longrightarrow> settled (step_Status (steps ! i)))"
  by (auto simp: allNextStepsAreSettledForCompensation_def list_all_iff settled_def)

lemma isStepStale_iff:
  "isStepStale st x staleAfter now \<longleftrightarrow> step_Status st = x \<and> overdue staleAfter now st"
  by (auto simp: isStepStale_def overdue_def split: option.splits)

definition claim_result :: "time \<Rightarrow> Saga \<Rightarrow> nat \<Rightarrow> ClaimedSagaStep \<times> Saga" where
  "claim_result now g k =
     (\<lparr>claimed_SagaID = ID g, claimed_StepIndex = int k,
       claimed_Name = step_Name (Steps g ! k), claimed_Attempt = Attempt (Steps g ! k) + 1\<rparr>,
      g\<lparr>Steps := (Steps g)[k := (Steps g ! k)\<lparr>step_Status := claim_status g,
          Attempt := Attempt (Steps g ! k) + 1, StartedAt := Some now, FinishedAt := None,
          step_Error := ''''\<rparr>], UpdatedAt := now\<rparr>)"

lemma execution_loop_find:
  assumes "Status g = SagaStatusCreated \<or> Status g = SagaStatusRunning"
    and "set ks \<subseteq> {..<length (Steps g)}"
  shows "claimExecutionStep_loop staleAfter now g ks =
    map_option (claim_result now g) (find (due staleAfter now g) ks)"
  using assms(2)
proof (induction ks)
  case (Cons k ks)
  have "due staleAfter now g k \<longleftrightarrow> allPreviousStepsAreCompleted (Steps g) k
      \<and> (status_at g k = SagaStepStatusPending \<or> isStepStale (Steps g ! k) SagaStepStatusRunning staleAfter now)"
    using assms(1) Cons.prems
    by (auto simp: due_def claimable_def exec_ready_def allPrevious_iff isStepStale_iff)
  with assms(1) Cons show ?case
    by (auto simp: Let_def claim_result_def claim_status_def)
qed simp

lemma compensation_loop_find:
  assumes "Status g = SagaStatusCanceling" and "set ks \<subseteq> {..<length (Steps g)}"
  shows "claimCompensationStep_loop staleAfter now g ks =
    map_option (claim_result now g) (find (due staleAfter now g) ks)"
  using assms(2)
proof (induction ks)
  case (Cons k ks)
  have "due staleAfter now g k \<longleftrightarrow> allNextStepsAreSettledForCompensation (Steps g) k
      \<and> (status_at g k = SagaStepStatusCompleted \<or> status_at g k = SagaStepStatusRunning
         \<or> isStepStale (Steps g ! k) SagaStepStatusCompensating staleAfter now)"
    using assms(1) Cons.prems
    by (auto simp: due_def claimable_def comp_ready_def allNext_iff isStepStale_iff settled_def)
  with assms(1) Cons show ?case
    by (auto simp: Let_def claim_result_def claim_status_def)
qed simp

text \<open>
  The search of the loops, whichever way they run, is for the one step that is due; there is
  at most one, since a claimable step is unique.
\<close>

lemma due_claimable: "due staleAfter now g k \<Longrightarrow> claimable g k"
  by (simp add: due_def)

lemma due_bound: "due staleAfter now g k \<Longrightarrow> k < length (Steps g)"
  by (auto simp: due_def claimable_def exec_ready_def comp_ready_def)

lemma due_unique: "due staleAfter now g k \<Longrightarrow> due staleAfter now g l \<Longrightarrow> k = l"
  using claimable_unique due_claimable by blast

lemma find_due:
  assumes "set ks = {..<length (Steps g)}"
  shows "find (due staleAfter now g) ks = Some k \<longleftrightarrow> due staleAfter now g k"
proof
  assume "find (due staleAfter now g) ks = Some k"
  then show "due staleAfter now g k" by (auto simp: find_Some_iff)
next
  assume d: "due staleAfter now g k"
  then have "find (due staleAfter now g) ks \<noteq> None"
    using assms due_bound [OF d] by (auto simp: find_None_iff)
  then obtain l where l: "find (due staleAfter now g) ks = Some l" by blast
  then have "due staleAfter now g l" by (auto simp: find_Some_iff)
  then show "find (due staleAfter now g) ks = Some k" using l d due_unique by blast
qed

lemma claimSagaStep_iff:
  "claimSagaStep staleAfter now g = Some r \<longleftrightarrow> (\<exists>k. due staleAfter now g k \<and> r = claim_result now g k)"
proof -
  have dead: "\<not> due staleAfter now g k"
    if "\<not> (Status g = SagaStatusCreated \<or> Status g = SagaStatusRunning \<or> Status g = SagaStatusCanceling)" for k
    using that by (simp add: due_def claimable_def)
  show ?thesis
    by (cases "Status g")
       (auto simp: dead claimSagaStep_def claimExecutionStep_def claimCompensationStep_def
          execution_loop_find compensation_loop_find find_due atLeast0LessThan)
qed

lemma claimSagaStep_None_iff:
  "claimSagaStep staleAfter now g = None \<longleftrightarrow> (\<forall>k. \<not> due staleAfter now g k)"
  using claimSagaStep_iff by (metis not_Some_eq)

lemma claim_result_effect:
  "due staleAfter now g k \<Longrightarrow> claim_effect (fst (claim_result now g k)) g (snd (claim_result now g k))"
  unfolding claim_effect_def
  by (intro exI [of _ k] exI [of _ now]) (simp add: claim_result_def due_claimable)

section \<open>The claim over all sagas\<close>

lemma claim_loop_cases:
  "claim_loop staleAfter now gs m = (r, m') \<Longrightarrow>
   (case r of
      None \<Rightarrow> m' = m \<and> (\<forall>g \<in> set gs. \<forall>k. \<not> due staleAfter now g k)
    | Some c \<Rightarrow> \<exists>g k. g \<in> set gs \<and> due staleAfter now g k \<and> c = fst (claim_result now g k)
        \<and> m' = m\<lparr>sagas := AList.update (ID g) (snd (claim_result now g k)) (sagas m)\<rparr>)"
proof (induction gs)
  case (Cons g gs)
  show ?case
  proof (cases "claimSagaStep staleAfter now g")
    case None
    with Cons show ?thesis
      by (auto simp: claimSagaStep_None_iff split: option.splits)
  next
    case (Some p)
    then obtain k where "due staleAfter now g k" "p = claim_result now g k"
      by (auto simp: claimSagaStep_iff)
    with Some Cons.prems show ?thesis
      by (auto simp: claim_result_def intro!: exI [of _ g] exI [of _ k])
  qed
qed simp

lemma memory_values:
  assumes "memory_inv m"
  shows "g \<in> set (map Clone (map snd (sagas m))) \<longleftrightarrow> memory_lookup m (ID g) = Some g"
proof
  assume "g \<in> set (map Clone (map snd (sagas m)))"
  then obtain k h where h: "(k, h) \<in> set (sagas m)" "g = Clone h" by auto
  then have "map_of (sagas m) k = Some h" using assms by (simp add: memory_inv_def)
  moreover from this have "ID h = k" by (rule memory_map_of_ID [OF assms])
  ultimately show "memory_lookup m (ID g) = Some g" using h by (simp add: memory_lookup_def)
next
  assume "memory_lookup m (ID g) = Some g"
  then obtain h where "map_of (sagas m) (ID g) = Some h" "g = Clone h"
    by (auto simp: memory_lookup_def)
  then show "g \<in> set (map Clone (map snd (sagas m)))" by (force dest: map_of_SomeD)
qed

lemma memory_claim_found:
  assumes "memory_inv m" and "Memory_ClaimNextStep c now staleAfter m = (Inr (Some d), m')"
  obtains g k where "memory_lookup m (ID g) = Some g" "due staleAfter now g k"
    "d = fst (claim_result now g k)"
    "m' = m\<lparr>sagas := AList.update (ID g) (snd (claim_result now g k)) (sagas m)\<rparr>"
proof -
  obtain gs where gs: "gs = sort_key saga_order (map Clone (map snd (sagas m)))"
    "claim_loop staleAfter now gs m = (Some d, m')"
    using assms(2) by (auto simp: Memory_ClaimNextStep_def split: option.splits prod.splits)
  from claim_loop_cases [OF gs(2)] obtain g k where g: "g \<in> set gs" "due staleAfter now g k"
    "d = fst (claim_result now g k)"
    "m' = m\<lparr>sagas := AList.update (ID g) (snd (claim_result now g k)) (sagas m)\<rparr>" by auto
  moreover have "memory_lookup m (ID g) = Some g"
    using g(1) memory_values [OF assms(1)] by (simp add: gs(1))
  ultimately show ?thesis using that by blast
qed

section \<open>The laws hold\<close>

lemmas memory_store_simps [store_simps] =
  memory_store_def Memory_Create_def Memory_Get_def Memory_Update_def memory_lookup_def

interpretation memory: saga_store memory_store memory_lookup memory_inv Clone "\<lambda>_. True"
proof (unfold_locales, goal_cases)
  case (6 g h)
  then have "cloneMap (Context g) = Context g" by (metis Clone_simps(4))
  with 6 show ?case by (simp add: saga_frame_def)
next
  case (1 s i g)
  then show ?case by (auto simp: memory_lookup_def dest: memory_map_of_ID)
next
  case (8 s c g s')
  then show ?case
    by (auto simp: store_simps map_of_update memory_inv_update split: option.splits)
next
  case (13 s c now i fn g' s')
  from 13(2) obtain g h where g: "map_of (sagas s) i = Some g" "fn (Clone g) = Inr h"
    and s': "s' = s\<lparr>sagas := AList.update i (h\<lparr>UpdatedAt := now\<rparr>) (sagas s)\<rparr>"
      "g' = Clone (h\<lparr>UpdatedAt := now\<rparr>)"
    by (auto simp: memory_store_def Memory_Update_def Let_def split: option.splits sum.splits)
  have "ID h = i" using 13(3) [OF g(2)] memory_map_of_ID [OF 13(1) g(1)] by (simp add: saga_frame_def)
  then have "memory_inv s'" using 13(1) by (simp add: s' memory_inv_update)
  moreover have "memory_lookup s i = Some (Clone g)" using g by (simp add: memory_lookup_def)
  ultimately show ?case using g(2) s'
    by (auto simp: memory_lookup_update simp del: Clone_update_simps)
next
  case (15 s c now stale d s')
  then obtain g k where g: "memory_lookup s (ID g) = Some g" "due stale now g k"
    "d = fst (claim_result now g k)"
    "s' = s\<lparr>sagas := AList.update (ID g) (snd (claim_result now g k)) (sagas s)\<rparr>"
    by (auto simp: memory_store_def elim: memory_claim_found)
  moreover have "Clone g = g" using g(1) by (auto simp: memory_lookup_def)
  ultimately show ?case using 15 claim_result_effect [OF g(2)]
    by (auto simp: memory_inv_update memory_lookup_update claim_result_def)
next
  case (16 s c now stale s')
  then show ?case
    by (auto simp: memory_store_def Memory_ClaimNextStep_def dest!: claim_loop_cases
        split: option.splits prod.splits)
qed (auto simp: store_simps steps_started_def Memory_ClaimNextStep_def Let_def
    split: option.splits sum.splits prod.splits)

interpretation memory_live: live_store memory_store memory_lookup memory_inv Clone "\<lambda>_. True"
proof (unfold_locales, goal_cases)
  case (8 s i g stale now k)
  obtain r s' where loop: "claim_loop stale now (sort_key saga_order (map Clone (map snd (sagas s)))) s = (r, s')"
    by (cases "claim_loop stale now (sort_key saga_order (map Clone (map snd (sagas s)))) s")
  have "ID g = i" using 8(1,2) by (rule memory.lookup_ID)
  then have "g \<in> set (sort_key saga_order (map Clone (map snd (sagas s))))"
    using memory_values [OF 8(1), of g] 8(2) by simp
  then have "r \<noteq> None" using claim_loop_cases [OF loop] 8(3) by (auto split: option.splits)
  then show ?case using loop by (auto simp: memory_store_def Memory_ClaimNextStep_def)
next
  case (9 s now stale d s')
  then obtain g k where "memory_lookup s (ID g) = Some g" "due stale now g k"
    "d = fst (claim_result now g k)"
    by (auto simp: memory_store_def elim: memory_claim_found)
  then show ?case by (auto simp: claim_result_def)
qed (auto simp: store_simps Let_def split: option.splits sum.splits)

section \<open>Listing\<close>

text \<open>All sagas of a status (or all), in the order of the listing.\<close>

definition listing :: "SagaStatus option \<Rightarrow> Memory \<Rightarrow> Saga list" where
  "listing status m = sort_key saga_order (map Clone (filter (matches status) (map snd (sagas m))))"

lemma slice_page:
  assumes "0 < limit" and "0 \<le> offset" and "offset < int (length xs)"
  shows "slice xs offset (if offset + limit < int (length xs) then offset + limit else int (length xs))
    = Inr (take (nat limit) (drop (nat offset) xs))"
proof (cases "offset + limit < int (length xs)")
  case True
  moreover have "nat (offset + limit - offset) = nat limit" by simp
  ultimately show ?thesis using assms by (simp add: slice_def)
next
  case False
  have "take (nat (int (length xs) - offset)) (drop (nat offset) xs) = drop (nat offset) xs"
    using assms by (intro take_all) simp
  moreover have "take (nat limit) (drop (nat offset) xs) = drop (nat offset) xs"
    using assms False by (intro take_all) simp
  ultimately show ?thesis using assms False by (simp add: slice_def)
qed

lemma Memory_List_page:
  assumes "0 < limit" and "0 \<le> offset" and "offset + limit \<le> max_int64"
  shows "Memory_List live status limit offset m = Inr (take (nat limit) (drop (nat offset) (listing status m)))"
proof -
  have "is_int64 (offset + limit)"
    using assms by (simp add: is_int64_def min_int64_def)
  then have "Memory_List live status limit offset m =
     (if offset \<ge> int (length (listing status m)) then Inr []
      else slice (listing status m) offset
        (if offset + limit < int (length (listing status m)) then offset + limit
         else int (length (listing status m))))"
    using assms unfolding Memory_List_def listing_def [symmetric] Let_def by simp
  also have "\<dots> = Inr (take (nat limit) (drop (nat offset) (listing status m)))"
  proof (cases "offset < int (length (listing status m))")
    case True
    then have "\<not> int (length (listing status m)) \<le> offset" by simp
    then show ?thesis using slice_page [OF assms(1,2) True] by (metis (full_types))
  next
    case False
    then show ?thesis using assms(2) by simp
  qed
  finally show ?thesis .
qed

lemma Memory_List_page_total:
  assumes "0 < limit" and "0 \<le> offset" and "int (length (listing status m)) + limit \<le> max_int64"
  shows "Memory_List live status limit offset m = Inr (take (nat limit) (drop (nat offset) (listing status m)))"
proof (cases "offset < int (length (listing status m))")
  case True
  then show ?thesis using assms by (intro Memory_List_page) linarith+
next
  case False
  then have "Memory_List live status limit offset m = Inr []"
    using assms(1,2) unfolding Memory_List_def listing_def [symmetric] Let_def by simp
  then show ?thesis using False assms(2) by simp
qed

lemma matches_Clone [simp]: "matches status (Clone g) = matches status g"
  by (simp add: matches_def split: option.splits)

lemma set_listing:
  assumes "memory_inv m"
  shows "g \<in> set (listing status m) \<longleftrightarrow> memory_lookup m (ID g) = Some g \<and> matches status g"
proof -
  have "g \<in> set (listing status m) \<longleftrightarrow> g \<in> set (map Clone (map snd (sagas m))) \<and> matches status g"
    unfolding listing_def by auto
  then show ?thesis using memory_values [OF assms] by blast
qed

lemma distinct_IDs:
  assumes "memory_inv m"
  shows "distinct (map ID (map Clone (filter P (map snd (sagas m)))))"
proof -
  have "map ID (map snd (sagas m)) = map fst (sagas m)"
    using assms by (auto simp: memory_inv_def list_all_iff)
  then have "distinct (map ID (map snd (sagas m)))" using assms by (simp only: memory_inv_def)
  then have "distinct (map ID (filter P (map snd (sagas m))))" by (rule distinct_map_filter)
  then show ?thesis by (simp add: comp_def)
qed

lemma distinct_listing:
  assumes "memory_inv m"
  shows "distinct (map ID (listing status m))"
proof -
  have "mset (map ID (listing status m)) = mset (map ID (map Clone (filter (matches status) (map snd (sagas m)))))"
    unfolding listing_def mset_map mset_sort ..
  then show ?thesis using distinct_IDs [OF assms] mset_eq_imp_distinct_iff by blast
qed

lemma sorted_listing: "sorted (map saga_order (listing status m))"
  by (simp add: listing_def)

lemma saga_order_inj: "distinct (map ID gs) \<Longrightarrow> inj_on saga_order (set gs)"
  by (auto simp: saga_order_def distinct_map inj_on_def)

lemma listing_order_irrelevant:
  assumes "memory_inv m" and "mset (sagas m) = mset (sagas m')"
  shows "listing status m = listing status m'"
  unfolding listing_def
proof (rule sort_key_unique)
  show "mset (map Clone (filter (matches status) (map snd (sagas m))))
      = mset (map Clone (filter (matches status) (map snd (sagas m'))))"
    unfolding mset_map mset_filter assms(2) ..
  show "inj_on saga_order (set (map Clone (filter (matches status) (map snd (sagas m)))))"
    using distinct_IDs [OF assms(1)] by (rule saga_order_inj)
qed

section \<open>The order of claims\<close>

lemma claim_loop_first:
  "claim_loop staleAfter now gs m = (Some c, m') \<Longrightarrow>
   \<exists>xs g ys k. gs = xs @ g # ys \<and> due staleAfter now g k \<and> c = fst (claim_result now g k)
     \<and> (\<forall>x \<in> set xs. \<forall>l. \<not> due staleAfter now x l)"
proof (induction gs)
  case (Cons g gs)
  show ?case
  proof (cases "claimSagaStep staleAfter now g")
    case None
    with Cons.prems have "claim_loop staleAfter now gs m = (Some c, m')" by simp
    from Cons.IH [OF this] obtain xs h ys k where "gs = xs @ h # ys" "due staleAfter now h k"
      "c = fst (claim_result now h k)" "\<forall>x \<in> set xs. \<forall>l. \<not> due staleAfter now x l" by blast
    moreover have "\<forall>l. \<not> due staleAfter now g l" using None by (simp add: claimSagaStep_None_iff)
    ultimately show ?thesis by (intro exI [of _ "g # xs"]) auto
  next
    case (Some p)
    then obtain k where "due staleAfter now g k" "p = claim_result now g k"
      by (auto simp: claimSagaStep_iff)
    with Some Cons.prems show ?thesis
      by (intro exI [of _ "[]"]) (auto simp: claim_result_def)
  qed
qed simp

lemma sorted_first_le:
  assumes "sorted (map f (xs @ g # ys))" and "h \<in> set (xs @ g # ys)" and "h \<notin> set xs"
  shows "f g \<le> f h"
  using assms by (auto simp: sorted_append)

text \<open>The saga a claim was taken from: where it is, which step, and no older saga had one due.\<close>

lemma memory_claim_first:
  assumes "memory_inv m" and "Memory_ClaimNextStep live now staleAfter m = (Inr (Some d), m')"
  obtains g k where "memory_lookup m (ID g) = Some g" "due staleAfter now g k"
    "d = fst (claim_result now g k)"
    "\<And>h l. memory_lookup m (ID h) = Some h \<Longrightarrow> due staleAfter now h l \<Longrightarrow> saga_order g \<le> saga_order h"
proof -
  let ?gs = "sort_key saga_order (map Clone (map snd (sagas m)))"
  have loop: "claim_loop staleAfter now ?gs m = (Some d, m')"
    using assms(2) by (auto simp: Memory_ClaimNextStep_def split: prod.splits)
  from claim_loop_first [OF loop] obtain xs g ys k where g: "?gs = xs @ g # ys" "due staleAfter now g k"
    "d = fst (claim_result now g k)" "\<forall>x \<in> set xs. \<forall>l. \<not> due staleAfter now x l" by blast
  have mem: "h \<in> set ?gs \<longleftrightarrow> memory_lookup m (ID h) = Some h" for h
    using memory_values [OF assms(1)] by simp
  have sorted: "sorted (map saga_order (xs @ g # ys))" unfolding g(1) [symmetric] by simp
  have "saga_order g \<le> saga_order h"
    if "memory_lookup m (ID h) = Some h" "due staleAfter now h l" for h l
  proof (rule sorted_first_le [OF sorted])
    show "h \<in> set (xs @ g # ys)" unfolding g(1) [symmetric] using mem that(1) by blast
    show "h \<notin> set xs" using g(4) that(2) by blast
  qed
  moreover have "memory_lookup m (ID g) = Some g" using mem [of g] unfolding g(1) by simp
  ultimately show thesis using that g(2,3) by blast
qed

lemma claim_loop_state:
  "claim_loop staleAfter now gs m = (r, m') \<Longrightarrow>
   fst (claim_loop staleAfter now gs m2) = r"
  by (induction gs) (auto split: option.splits)

section \<open>Properties\<close>

text \<open>C7. A claim on a live context, completely: it fails to find a step only if no stored saga has a
  step that is due, and then changes nothing; otherwise it takes the due step of the oldest saga
  (by creation instant, then identifier) that has one, gives it the status of its phase, one more
  attempt and the instant of the claim, and changes no other saga.\<close>

theorem memory_claims_oldest_due:
  assumes "memory_inv m" and "Memory_ClaimNextStep live now staleAfter m = (Inr r, m')"
  shows "case r of
      None \<Rightarrow> m' = m \<and> (\<forall>h l. memory_lookup m (ID h) = Some h \<longrightarrow> \<not> due staleAfter now h l)
    | Some d \<Rightarrow> \<exists>g k. memory_lookup m (ID g) = Some g \<and> due staleAfter now g k
        \<and> (\<forall>h l. memory_lookup m (ID h) = Some h \<and> due staleAfter now h l \<longrightarrow> saga_order g \<le> saga_order h)
        \<and> claimed_SagaID d = ID g \<and> claimed_StepIndex d = int k
        \<and> claimed_Attempt d = Attempt (Steps g ! k) + 1
        \<and> memory_lookup m' = (memory_lookup m)(ID g \<mapsto>
            g\<lparr>Steps := (Steps g)[k := (Steps g ! k)\<lparr>step_Status := claim_status g,
                Attempt := Attempt (Steps g ! k) + 1, StartedAt := Some now, FinishedAt := None,
                step_Error := ''''\<rparr>], UpdatedAt := now\<rparr>)"
proof (cases r)
  case None
  have "\<not> due staleAfter now h l" if "memory_lookup m (ID h) = Some h" for h l
    using memory_live.claim_live [OF assms(1) that] assms(2) None
    by (fastforce simp: memory_store_def)
  moreover have "m' = m"
    using assms(2) None
    by (auto simp: Memory_ClaimNextStep_def dest!: claim_loop_cases split: prod.splits)
  ultimately show ?thesis using None by simp
next
  case (Some d)
  from memory_claim_first [OF assms(1) assms(2) [unfolded Some]] obtain g k where
    g: "memory_lookup m (ID g) = Some g" "due staleAfter now g k" "d = fst (claim_result now g k)"
    "\<And>h l. memory_lookup m (ID h) = Some h \<Longrightarrow> due staleAfter now h l \<Longrightarrow> saga_order g \<le> saga_order h"
    by blast
  from memory_claim_found [OF assms(1) assms(2) [unfolded Some]] obtain g' k' where
    g': "memory_lookup m (ID g') = Some g'" "due staleAfter now g' k'" "d = fst (claim_result now g' k')"
    "m' = m\<lparr>sagas := AList.update (ID g') (snd (claim_result now g' k')) (sagas m)\<rparr>" by blast
  have "ID g = ID g'" using g(3) g'(3) by (simp add: claim_result_def)
  then have eq: "g = g'" using g(1) g'(1) by (metis option.inject)
  then have "k = k'" using due_unique g(2) g'(2) by blast
  moreover have "Clone g = g" using g(1) by (auto simp: memory_lookup_def)
  ultimately have "memory_lookup m' = (memory_lookup m)(ID g \<mapsto> snd (claim_result now g k))"
    using g'(4) eq by (simp add: memory_lookup_update claim_result_def)
  then show ?thesis unfolding Some option.case
    by (intro exI [of _ g] exI [of _ k] conjI allI impI) (use g in \<open>auto simp: claim_result_def\<close>)
qed

definition pending_step :: "string \<Rightarrow> SagaStep" where
  "pending_step name = \<lparr>step_Name = name, GRPCTarget = ''host:1'', step_Status = SagaStepStatusPending,
     Attempt = 0, StartedAt = None, FinishedAt = None, step_Error = ''''\<rparr>"

definition sample_saga :: "string \<Rightarrow> time \<Rightarrow> Saga" where
  "sample_saga i t = \<lparr>ID = i, Workflow = ''order'', Status = SagaStatusCreated, Context = Some Map.empty,
     Steps = [pending_step ''reserve'', pending_step ''charge''], CreatedAt = t, UpdatedAt = t\<rparr>"

definition sample_memory :: Memory where
  "sample_memory = \<lparr>sagas = [(''b'', sample_saga ''b'' 20), (''a'', sample_saga ''a'' 10)]\<rparr>"

lemmas sample_defs = sample_memory_def sample_saga_def pending_step_def

lemma sample_memory_inv: "memory_inv sample_memory"
  by (simp add: memory_inv_def sample_defs)

lemma sample_lookup: "memory_lookup sample_memory ''a'' = Some (sample_saga ''a'' 10)"
  by (simp add: memory_lookup_def sample_defs Clone_def cloneMap_def comp_def)

lemma sample_claim:
  "Memory_ClaimNextStep live 100 5 sample_memory =
     (Inr (Some \<lparr>claimed_SagaID = ''a'', claimed_StepIndex = 0, claimed_Name = ''reserve'', claimed_Attempt = 1\<rparr>),
      \<lparr>sagas = [(''b'', sample_saga ''b'' 20), (''a'', (sample_saga ''a'' 10)
         \<lparr>Steps := [(pending_step ''reserve'')\<lparr>step_Status := SagaStepStatusRunning, Attempt := 1,
            StartedAt := Some 100\<rparr>, pending_step ''charge''], UpdatedAt := 100\<rparr>)]\<rparr>)"
  by (simp add: Memory_ClaimNextStep_def sample_defs Clone_def cloneMap_def comp_def saga_order_def
      claimSagaStep_def claimExecutionStep_def allPreviousStepsAreCompleted_def Let_def upt_rec)

theorem memory_claims_oldest_due_witness:
  "\<exists>g k. memory_lookup sample_memory (ID g) = Some g \<and> due 5 100 g k \<and> ID g = ''a'' \<and> k = 0"
  using memory_claims_oldest_due [OF sample_memory_inv sample_claim] by auto



text \<open>C25. The order in which Go's map iteration visits the sagas cannot be observed: two stores that
  hold the same sagas give the same listings and the same claims.\<close>

theorem memory_map_order_irrelevant:
  assumes "memory_inv m" and "mset (sagas m) = mset (sagas m')"
  shows "Memory_List c status limit offset m = Memory_List c status limit offset m'
    \<and> fst (Memory_ClaimNextStep c now staleAfter m) = fst (Memory_ClaimNextStep c now staleAfter m')"
proof
  have "listing status m = listing status m'" using assms by (rule listing_order_irrelevant)
  then show "Memory_List c status limit offset m = Memory_List c status limit offset m'"
    unfolding Memory_List_def listing_def [symmetric] Let_def by (simp only:)
  have "filter (matches None) xs = xs" for xs by (induction xs) (simp_all add: matches_def)
  then have "sort_key saga_order (map Clone (map snd (sagas m))) = sort_key saga_order (map Clone (map snd (sagas m')))"
    using listing_order_irrelevant [OF assms, of None] unfolding listing_def by simp
  then show "fst (Memory_ClaimNextStep c now staleAfter m) = fst (Memory_ClaimNextStep c now staleAfter m')"
    using claim_loop_state
    by (auto simp: Memory_ClaimNextStep_def Let_def split: option.splits prod.splits) (metis fst_conv)
qed

theorem memory_map_order_irrelevant_witness:
  "fst (Memory_ClaimNextStep live 100 5 sample_memory)
   = fst (Memory_ClaimNextStep live 100 5 \<lparr>sagas = rev (sagas sample_memory)\<rparr>)"
  using memory_map_order_irrelevant [OF sample_memory_inv,
    of "\<lparr>sagas = rev (sagas sample_memory)\<rparr>" live None 0 0 100 5]
  by simp

text \<open>C26. The page arithmetic of \<^verbatim>\<open>Memory.List\<close> overflows: whenever an offset inside the listing and a
  limit add up to more than the largest 64-bit integer, the sum wraps to a negative number and
  the slice expression panics, although both arguments pass the validation.\<close>

theorem memory_list_overflow_panics:
  assumes "0 \<le> offset" and "offset < int (length (listing status m))"
    and "limit \<le> max_int64" and "max_int64 < offset + limit" and "offset \<le> max_int64"
  shows "Memory_List live status limit offset m = Inl (Panicked ''slice bounds out of range'')"
proof -
  have "0 < limit" using assms by linarith
  moreover have w: "wrap64 (offset + limit) = offset + limit - 18446744073709551616"
    using assms by (intro wrap64_over) linarith+
  moreover have "offset + limit - 18446744073709551616 < 0"
    using assms by (simp add: max_int64_def)
  ultimately have "Memory_List live status limit offset m =
      slice (listing status m) offset (offset + limit - 18446744073709551616)"
    using assms unfolding Memory_List_def listing_def [symmetric] Let_def by simp
  then show ?thesis
    using assms \<open>offset + limit - 18446744073709551616 < 0\<close> by (simp add: slice_def)
qed

theorem memory_list_overflow_panics_witness:
  "Memory_List live None max_int64 1 sample_memory = Inl (Panicked ''slice bounds out of range'')"
  by (rule memory_list_overflow_panics)
     (simp_all add: listing_def matches_def sample_defs max_int64_def)

end
