(* ===== verification/System.thy ===== *)
theory System
  imports Memory
begin

text \<open>
  The orchestrator as a transition system over any store: requests that start and cancel
  sagas, the loop that claims steps, and any number of workers, in any interleaving. A worker
  first takes the lock of its saga and loads the step, then makes the remote call, then
  records the result; while it holds the lock the saga is in \<open>inflight\<close>, and neither another
  worker nor a cancellation of that saga can begin. Claims do not take the lock, are never
  withdrawn and may be taken again when they are stale, so several workers can hold a claim
  of one step. Claims and workers may vanish at any point, as in a crash. A request has fewer
  than \<open>2 ^ 31\<close> steps: it arrives in one message, which the transports bound far below that.
\<close>

record 's sys =
  store_of :: 's
  claims :: "ClaimedSagaStep list"
  inflight :: "string \<Rightarrow> (ClaimedSagaStep \<times> Saga \<times> SagaStep) option"

definition init_sys :: "'s \<Rightarrow> 's sys" where
  "init_sys s = \<lparr>store_of = s, claims = [], inflight = Map.empty\<rparr>"

inductive sys_step :: "'s stepQueueStore \<Rightarrow> 's sys \<Rightarrow> 's sys \<Rightarrow> bool" for ops where
  start_saga: "StartSagaWithIdempotencyKey (Some ops) unmarshal rnd now c c' workflow key raw steps (store_of S) = (r, s')
    \<Longrightarrow> int (length steps) < 2147483648 \<Longrightarrow> sys_step ops S (S\<lparr>store_of := s'\<rparr>)"
| cancel_saga: "inflight S i = None
    \<Longrightarrow> store_Update ops c now i (cancelCandidate stepNow) (store_of S) = (u, s')
    \<Longrightarrow> sys_step ops S (S\<lparr>store_of := s'\<rparr>)"
| claim_step: "store_ClaimNextStep ops c now stale (store_of S) = (Inr (Some d), s')
    \<Longrightarrow> sys_step ops S (S\<lparr>store_of := s', claims := d # claims S\<rparr>)"
| claim_nothing: "store_ClaimNextStep ops c now stale (store_of S) = (x, s') \<Longrightarrow> \<forall>d. x \<noteq> Inr (Some d)
    \<Longrightarrow> sys_step ops S (S\<lparr>store_of := s'\<rparr>)"
| lose_claim: "d \<in> set (claims S) \<Longrightarrow> sys_step ops S (S\<lparr>claims := remove1 d (claims S)\<rparr>)"
| begin_dispatch: "d \<in> set (claims S) \<Longrightarrow> inflight S (claimed_SagaID d) = None
    \<Longrightarrow> loadClaimedStepForDispatch ops c d (store_of S) = Inr (Some (g, st))
    \<Longrightarrow> sys_step ops S (S\<lparr>claims := remove1 d (claims S),
          inflight := (inflight S)(claimed_SagaID d \<mapsto> (d, g, st))\<rparr>)"
| skip_claim: "d \<in> set (claims S) \<Longrightarrow> inflight S (claimed_SagaID d) = None
    \<Longrightarrow> loadClaimedStepForDispatch ops c d (store_of S) = x \<Longrightarrow> \<forall>p. x \<noteq> Inr (Some p)
    \<Longrightarrow> sys_step ops S (S\<lparr>claims := remove1 d (claims S)\<rparr>)"
| finish_dispatch: "inflight S i = Some (d, g, st)
    \<Longrightarrow> updateClaimedStepAfterDispatch ops c stepNow now d err (store_of S) = (e, s')
    \<Longrightarrow> sys_step ops S (S\<lparr>store_of := s', inflight := (inflight S)(i := None)\<rparr>)"
| lose_worker: "inflight S i = Some p \<Longrightarrow> sys_step ops S (S\<lparr>inflight := (inflight S)(i := None)\<rparr>)"

inductive sys_reach :: "'s stepQueueStore \<Rightarrow> 's \<Rightarrow> 's sys \<Rightarrow> bool" for ops s0 where
  reach_init: "sys_reach ops s0 (init_sys s0)"
| reach_step: "sys_reach ops s0 S \<Longrightarrow> sys_step ops S T \<Longrightarrow> sys_reach ops s0 T"

section \<open>The invariant\<close>

text \<open>A claim names a step of a stored saga that has been started.\<close>

definition claim_valid :: "('s \<Rightarrow> string \<Rightarrow> Saga option) \<Rightarrow> 's \<Rightarrow> ClaimedSagaStep \<Rightarrow> bool" where
  "claim_valid lookup s d \<longleftrightarrow> (\<exists>g k. lookup s (claimed_SagaID d) = Some g \<and> claimed_StepIndex d = int k
     \<and> k < length (Steps g) \<and> status_at g k \<noteq> SagaStepStatusPending)"

text \<open>
  While a worker dispatches a step, the saga stays in the phase the worker saw: it executes
  and this is the running step, or it is being cancelled and this step awaits compensation.
\<close>

definition dispatch_phase :: "SagaStep \<Rightarrow> Saga \<Rightarrow> nat \<Rightarrow> bool" where
  "dispatch_phase st h k \<longleftrightarrow>
     (if step_Status st = SagaStepStatusCompensating
      then Status h = SagaStatusCanceling \<and> \<not> settled (status_at h k)
      else (Status h = SagaStatusCreated \<or> Status h = SagaStatusRunning)
        \<and> status_at h k = SagaStepStatusRunning)"

definition dispatch_valid ::
  "('s \<Rightarrow> string \<Rightarrow> Saga option) \<Rightarrow> 's \<Rightarrow> string \<Rightarrow> ClaimedSagaStep \<times> Saga \<times> SagaStep \<Rightarrow> bool" where
  "dispatch_valid lookup s i = (\<lambda>(d, g, st). claimed_SagaID d = i
     \<and> (\<exists>h k. lookup s i = Some h \<and> claimed_StepIndex d = int k \<and> k < length (Steps h) \<and> dispatch_phase st h k))"

definition sys_inv :: "('s \<Rightarrow> string \<Rightarrow> Saga option) \<Rightarrow> ('s \<Rightarrow> bool) \<Rightarrow> 's sys \<Rightarrow> bool" where
  "sys_inv lookup sinv S \<longleftrightarrow> sinv (store_of S)
     \<and> (\<forall>i g. lookup (store_of S) i = Some g \<longrightarrow> saga_good g)
     \<and> (\<forall>d \<in> set (claims S). claim_valid lookup (store_of S) d)
     \<and> (\<forall>i p. inflight S i = Some p \<longrightarrow> dispatch_valid lookup (store_of S) i p)"

text \<open>Every saga stays and makes progress.\<close>

definition evolves :: "('s \<Rightarrow> string \<Rightarrow> Saga option) \<Rightarrow> 's \<Rightarrow> 's \<Rightarrow> bool" where
  "evolves lookup s s' \<longleftrightarrow>
     (\<forall>i g. lookup s i = Some g \<longrightarrow> (\<exists>h. lookup s' i = Some h \<and> saga_progress g h))"

lemma evolves_same: "lookup s' = lookup s \<Longrightarrow> evolves lookup s s'"
  by (simp add: evolves_def)

lemma evolves_refl [simp]: "evolves lookup s s"
  by (simp add: evolves_same)

lemma evolves_trans: "evolves lookup s t \<Longrightarrow> evolves lookup t u \<Longrightarrow> evolves lookup s u"
  unfolding evolves_def by (blast intro: saga_progress_trans)

lemma evolves_new: "lookup s i = None \<Longrightarrow> lookup s' = (lookup s)(i \<mapsto> g) \<Longrightarrow> evolves lookup s s'"
  by (auto simp: evolves_def)

lemma evolves_one:
  "lookup s i = Some g \<Longrightarrow> saga_progress g h \<Longrightarrow> lookup s' = (lookup s)(i \<mapsto> h) \<Longrightarrow> evolves lookup s s'"
  by (auto simp: evolves_def)

lemma claim_valid_evolves:
  assumes "evolves lookup s s'" and "claim_valid lookup s d"
  shows "claim_valid lookup s' d"
proof -
  from assms(2) obtain g k where g: "lookup s (claimed_SagaID d) = Some g" "claimed_StepIndex d = int k"
    "k < length (Steps g)" "status_at g k \<noteq> SagaStepStatusPending" by (auto simp: claim_valid_def)
  from assms(1) g(1) obtain h where h: "lookup s' (claimed_SagaID d) = Some h" "saga_progress g h"
    by (auto simp: evolves_def)
  have "length (Steps h) = length (Steps g)" "status_at h k \<noteq> SagaStepStatusPending"
    using h(2) g(3,4) by (auto simp: saga_progress_def dest: saga_frame_length)
  then show ?thesis using g h by (auto simp: claim_valid_def)
qed

lemma dispatch_valid_frame:
  "lookup s' i = lookup s i \<Longrightarrow> dispatch_valid lookup s i p \<Longrightarrow> dispatch_valid lookup s' i p"
  by (simp add: dispatch_valid_def)

lemma dispatch_phase_claim:
  assumes "claim_effect c g g'" and "k < length (Steps g)" and "dispatch_phase st g k"
  shows "dispatch_phase st g' k"
  using assms(1)
proof (rule claim_effectD)
  fix l assume l: "l < length (Steps g)" "Status g' = Status g"
    "map step_Status (Steps g') = (map step_Status (Steps g))[l := claim_status g]"
  have len: "length (Steps g') = length (Steps g)" using l(3) by (metis length_list_update length_map)
  then have "status_at g' k = (map step_Status (Steps g))[l := claim_status g] ! k"
    using l(3) assms(2) by (metis nth_map)
  then have "status_at g' k = (if k = l then claim_status g else status_at g k)"
    using l(1) assms(2) by (simp add: nth_list_update)
  then show ?thesis using assms(3) l(2)
    by (auto simp: dispatch_phase_def claim_status_def settled_def split: if_splits)
qed

section \<open>Every step keeps it\<close>

context saga_store
begin

lemma keep_progress:
  assumes "keep g = g" and "saga_progress g h" and "saga_ok h"
  shows "saga_progress g (keep (h\<lparr>UpdatedAt := t\<rparr>))"
proof (rule saga_progressI)
  have "saga_ok (h\<lparr>UpdatedAt := t\<rparr>)" using assms(3) by (simp add: saga_ok_def)
  note shape = keep_shape [OF this]
  have frame: "saga_frame g (h\<lparr>UpdatedAt := t\<rparr>)" using assms(2) by (simp add: saga_progress_def)
  with assms(1) show "saga_frame g (keep (h\<lparr>UpdatedAt := t\<rparr>))" by (rule keep_frame)
  show "transits (Status g) (Status (keep (h\<lparr>UpdatedAt := t\<rparr>)))"
    using assms(2) by (simp add: saga_progress_def shape)
  have "length (Steps h) = length (Steps g)" using frame saga_frame_length by fastforce
  then show "map step_Status (Steps (keep (h\<lparr>UpdatedAt := t\<rparr>))) ! i \<noteq> SagaStepStatusPending"
    if "i < length (Steps g)" "map step_Status (Steps g) ! i \<noteq> SagaStepStatusPending" for i
    using assms(2) that by (simp add: shape saga_progress_def)
qed

text \<open>The update of one saga by a function that keeps it well-formed and makes progress.\<close>

lemma update_step:
  assumes "inv s" and "\<And>i g. lookup s i = Some g \<Longrightarrow> saga_good g"
    and "lookup s i = Some g" and "saga_good h" and "saga_progress g h"
    and "lookup s' = (lookup s)(i \<mapsto> keep (h\<lparr>UpdatedAt := t\<rparr>))"
  shows "evolves lookup s s'" and "lookup s' j = Some x \<Longrightarrow> saga_good x"
proof -
  have "keep g = g" using assms(1,3) by (rule lookup_kept)
  then show "evolves lookup s s'"
    using keep_progress saga_good_ok [OF assms(4)] assms(3,5,6) by (intro evolves_one) auto
  show "saga_good x" if "lookup s' j = Some x"
    using that assms(2,4,6) by (auto split: if_splits intro: keep_good)
qed

lemma start_step:
  assumes "inv s" and "\<And>i g. lookup s i = Some g \<Longrightarrow> saga_good g"
    and "StartSagaWithIdempotencyKey (Some ops) unmarshal rnd now c c' workflow key raw steps s = (r, s')"
    and "int (length steps) < 2147483648"
  shows "inv s'" and "evolves lookup s s'" and "lookup s' j = Some x \<Longrightarrow> saga_good x"
    and "lookup s i = Some g \<Longrightarrow> lookup s' i = Some g"
proof -
  have "inv s' \<and> evolves lookup s s' \<and> (\<forall>j x. lookup s' j = Some x \<longrightarrow> saga_good x)
      \<and> (\<forall>i g. lookup s i = Some g \<longrightarrow> lookup s' i = Some g)"
  proof (cases r)
    case (Inl e)
    then show ?thesis using start_error [OF assms(1)] assms(2,3) evolves_same by metis
  next
    case (Inr i)
    have fit: "fits (requested_saga j workflow sagaContext steps now)" for j sagaContext
      using assms(4) by (intro fits_few) (simp add: requested_saga_def)
    show ?thesis
    proof (rule start_result [OF assms(1) assms(3) [unfolded Inr] fit])
      fix sagaContext
      assume "inv s'" and i: "lookup s i = None" and "steps \<noteq> []"
        and s': "lookup s' = (lookup s)(i \<mapsto> keep (requested_saga i workflow sagaContext steps now))"
      then show ?thesis using evolves_new [OF i s'] requested_saga_good keep_good assms(2) by auto
    next
      assume "inv s'" "lookup s' = lookup s"
      then show ?thesis using assms(2) evolves_same by metis
    qed
  qed
  then show "inv s'" and "evolves lookup s s'" and "lookup s' j = Some x \<Longrightarrow> saga_good x"
    and "lookup s i = Some g \<Longrightarrow> lookup s' i = Some g" by blast+
qed

lemma cancel_step:
  assumes "inv s" and ok: "\<And>i g. lookup s i = Some g \<Longrightarrow> saga_good g"
    and "store_Update ops c now i (cancelCandidate stepNow) s = (u, s')"
  shows "inv s'" and "evolves lookup s s'" and "lookup s' j = Some x \<Longrightarrow> saga_good x"
    and "j \<noteq> i \<Longrightarrow> lookup s' j = lookup s j"
proof -
  have "inv s' \<and> evolves lookup s s' \<and> (\<forall>j x. lookup s' j = Some x \<longrightarrow> saga_good x)
      \<and> (\<forall>j. j \<noteq> i \<longrightarrow> lookup s' j = lookup s j)"
  proof (cases u)
    case (Inl e)
    then show ?thesis using update_error [OF assms(1)] assms(2,3) evolves_same by metis
  next
    case (Inr g')
    from update_ok [OF assms(1) assms(3) [unfolded Inr] cancelCandidate_frame [of stepNow]] obtain g h where s': "inv s'"
      "lookup s i = Some g" "cancelCandidate stepNow g = Inr h"
      "lookup s' = (lookup s)(i \<mapsto> keep (h\<lparr>UpdatedAt := now\<rparr>))" by blast
    have "saga_good h" "saga_progress g h"
      using cancelCandidate_good [OF ok s'(3)] cancelCandidate_progress [OF saga_good_ok [OF ok] s'(3)] s'(2) by auto
    then show ?thesis using update_step [OF assms(1) ok s'(2) _ _ s'(4)] s'(1,4) by auto
  qed
  then show "inv s'" and "evolves lookup s s'" and "lookup s' j = Some x \<Longrightarrow> saga_good x"
    and "j \<noteq> i \<Longrightarrow> lookup s' j = lookup s j" by blast+
qed

lemma finish_step:
  assumes "inv s" and ok: "\<And>i g. lookup s i = Some g \<Longrightarrow> saga_good g" and "claim_valid lookup s d"
    and "updateClaimedStepAfterDispatch ops c stepNow now d err s = (e, s')"
  shows "inv s'" and "evolves lookup s s'" and "lookup s' j = Some x \<Longrightarrow> saga_good x"
    and "j \<noteq> claimed_SagaID d \<Longrightarrow> lookup s' j = lookup s j"
proof -
  have "inv s' \<and> evolves lookup s s' \<and> (\<forall>j x. lookup s' j = Some x \<longrightarrow> saga_good x)
      \<and> (\<forall>j. j \<noteq> claimed_SagaID d \<longrightarrow> lookup s' j = lookup s j)"
  proof (rule update_after_dispatch [OF assms(1,4)])
    assume "inv s'" "lookup s' = lookup s"
    then show ?thesis using ok evolves_same by metis
  next
    fix g h
    assume s': "inv s'" "lookup s (claimed_SagaID d) = Some g" "updateCandidate d err stepNow g = Inr h"
      "lookup s' = (lookup s)(claimed_SagaID d \<mapsto> keep (h\<lparr>UpdatedAt := now\<rparr>))"
    have "status_at g (nat (claimed_StepIndex d)) \<noteq> SagaStepStatusPending"
      using assms(3) s'(2) by (auto simp: claim_valid_def)
    then have "saga_good h" "saga_progress g h"
      using updateCandidate_good [OF ok s'(3)] updateCandidate_ok [OF saga_good_ok [OF ok] s'(3)] s'(2) by auto
    then show ?thesis using update_step [OF assms(1) ok s'(2) _ _ s'(4)] s'(1,4) by auto
  qed
  then show "inv s'" and "evolves lookup s s'" and "lookup s' j = Some x \<Longrightarrow> saga_good x"
    and "j \<noteq> claimed_SagaID d \<Longrightarrow> lookup s' j = lookup s j" by blast+
qed

lemma claimed_step:
  assumes "inv s" and ok: "\<And>i g. lookup s i = Some g \<Longrightarrow> saga_good g"
    and "store_ClaimNextStep ops c now stale s = (Inr (Some d), s')"
  shows "inv s'" and "evolves lookup s s'" and "lookup s' j = Some x \<Longrightarrow> saga_good x"
    and "claim_valid lookup s' d"
    and "dispatch_valid lookup s i p \<Longrightarrow> dispatch_valid lookup s' i p"
proof -
  from claim_found [OF assms(1,3)] obtain g g' where g: "inv s'" "lookup s (claimed_SagaID d) = Some g"
    "claim_effect d g g'" "lookup s' = (lookup s)(claimed_SagaID d \<mapsto> g')" by blast
  show "inv s'" by (rule g(1))
  show "evolves lookup s s'" using evolves_one [OF g(2) claim_effect_progress [OF g(3)] g(4)] .
  show "saga_good x" if "lookup s' j = Some x"
    using that ok g claim_effect_good [OF g(3)] by (auto split: if_splits)
  show "claim_valid lookup s' d"
    using g(3)
  proof (rule claim_effectD)
    fix k assume k: "claimed_StepIndex d = int k" "k < length (Steps g)"
      "map step_Status (Steps g') = (map step_Status (Steps g))[k := claim_status g]"
    then have len: "length (Steps g') = length (Steps g)" by (metis length_list_update length_map)
    have "map step_Status (Steps g') ! k = claim_status g" using k(2) unfolding k(3) by simp
    then have "status_at g' k = claim_status g" using k(2) len by simp
    then show ?thesis using k len g(4) by (auto simp: claim_valid_def claim_status_def)
  qed
  show "dispatch_valid lookup s' i p" if "dispatch_valid lookup s i p"
  proof (cases "i = claimed_SagaID d")
    case False
    then have "lookup s' i = lookup s i" using g(4) by simp
    then show ?thesis using that by (rule dispatch_valid_frame)
  next
    case True
    have "length (Steps g') = length (Steps g)"
      using claim_effect_progress [OF g(3)] saga_frame_length by (auto simp: saga_progress_def)
    then show ?thesis using that True g dispatch_phase_claim [OF g(3)]
      by (auto simp: dispatch_valid_def split: prod.splits)
  qed
qed

lemma loaded_dispatch:
  assumes "inv s" and ok: "\<And>i g. lookup s i = Some g \<Longrightarrow> saga_good g" and "claim_valid lookup s d"
    and "loadClaimedStepForDispatch ops c d s = Inr (Some (g, st))"
  shows "dispatch_valid lookup s (claimed_SagaID d) (d, g, st)" and "lookup s (claimed_SagaID d) = Some g"
proof -
  from load_result [OF assms(1,4)] obtain k where k: "lookup s (claimed_SagaID d) = Some g"
    "claimed_StepIndex d = int k" "k < length (Steps g)" and
    mode: "Status g = SagaStatusCanceling \<and> \<not> settled (status_at g k)
       \<and> st = (Steps g ! k)\<lparr>step_Status := SagaStepStatusCompensating\<rparr>
     \<or> Status g \<noteq> SagaStatusCanceling \<and> Status g \<noteq> SagaStatusCompensated \<and> Status g \<noteq> SagaStatusFailed
       \<and> (status_at g k = SagaStepStatusPending \<or> status_at g k = SagaStepStatusRunning) \<and> st = Steps g ! k"
    by blast
  have np: "status_at g k \<noteq> SagaStepStatusPending" using assms(3) k by (auto simp: claim_valid_def)
  have "saga_shape (Status g) (map step_Status (Steps g))" using ok [OF k(1)] by (simp add: saga_good_def saga_ok_def)
  then have "status_at g k = SagaStepStatusCompleted" if "Status g = SagaStatusCompleted"
    using that k(3) by simp
  then have "dispatch_phase st g k"
    using mode np \<open>saga_shape (Status g) _\<close>
    by (cases "Status g") (auto simp: dispatch_phase_def)
  then show "dispatch_valid lookup s (claimed_SagaID d) (d, g, st)"
    using k by (auto simp: dispatch_valid_def)
  show "lookup s (claimed_SagaID d) = Some g" by (rule k(1))
qed

lemma dispatch_claim_valid: "dispatch_valid lookup s i (d, g, st) \<Longrightarrow> claim_valid lookup s d"
  by (auto simp: dispatch_valid_def claim_valid_def dispatch_phase_def settled_def split: if_splits)

theorem sys_step_inv:
  assumes "sys_step ops S T" and "sys_inv lookup inv S"
  shows "sys_inv lookup inv T \<and> evolves lookup (store_of S) (store_of T)"
proof -
  from assms(2) have sinv: "inv (store_of S)"
    and ok: "\<And>i g. lookup (store_of S) i = Some g \<Longrightarrow> saga_good g"
    and cl: "\<And>d. d \<in> set (claims S) \<Longrightarrow> claim_valid lookup (store_of S) d"
    and dv: "\<And>i p. inflight S i = Some p \<Longrightarrow> dispatch_valid lookup (store_of S) i p"
    by (auto simp: sys_inv_def)
  have sub: "x \<in> set (claims S)" if "x \<in> set (remove1 d (claims S))" for x d
    using that set_remove1_subset by fast
  from assms(1) show ?thesis
  proof cases
    case (start_saga unmarshal rnd now c c' workflow key raw steps r s')
    note st = start_step [OF sinv ok start_saga(2,3)]
    have "dispatch_valid lookup s' i p" if "inflight S i = Some p" for i p
    proof -
      from dv [OF that] obtain g where "lookup (store_of S) i = Some g" by (auto simp: dispatch_valid_def)
      then have "lookup s' i = lookup (store_of S) i" using st(4) by simp
      then show ?thesis using dv [OF that] by (rule dispatch_valid_frame)
    qed
    then show ?thesis
      using start_saga(1) st(1-3) claim_valid_evolves [OF st(2)] cl by (auto simp: sys_inv_def)
  next
    case (cancel_saga i c now stepNow u s')
    note st = cancel_step [OF sinv ok cancel_saga(3)]
    have "dispatch_valid lookup s' j p" if "inflight S j = Some p" for j p
    proof -
      have "j \<noteq> i" using that cancel_saga(2) by auto
      then show ?thesis by (intro dispatch_valid_frame [OF _ dv [OF that]] st(4))
    qed
    then show ?thesis
      using cancel_saga(1) st(1-3) claim_valid_evolves [OF st(2)] cl by (auto simp: sys_inv_def)
  next
    case (claim_step c now stale d s')
    note st = claimed_step [OF sinv ok claim_step(2)]
    then show ?thesis
      using claim_step(1) claim_valid_evolves [OF st(2)] cl dv by (auto simp: sys_inv_def)
  next
    case (claim_nothing c now stale x s')
    have "inv s' \<and> lookup s' = lookup (store_of S)"
      using claim_nothing(2,3) claim_none [OF sinv] claim_error [OF sinv]
      by (cases x; cases "projr x") auto
    then have "dispatch_valid lookup s' = dispatch_valid lookup (store_of S)"
      "claim_valid lookup s' = claim_valid lookup (store_of S)"
      by (auto simp: dispatch_valid_def claim_valid_def fun_eq_iff)
    then show ?thesis
      using claim_nothing(1) \<open>inv s' \<and> _\<close> ok cl dv evolves_same [of lookup s' "store_of S"]
      by (simp add: sys_inv_def)
  next
    case (lose_claim d)
    then show ?thesis using sinv ok cl dv
      by (auto simp: sys_inv_def dest: sub)
  next
    case (begin_dispatch d c g st)
    have "dispatch_valid lookup (store_of S) (claimed_SagaID d) (d, g, st)"
      using sinv ok cl [OF begin_dispatch(2)] begin_dispatch(4) by (rule loaded_dispatch(1))
    then show ?thesis using begin_dispatch(1) sinv ok cl dv
      by (auto simp: sys_inv_def dest: sub)
  next
    case (skip_claim d c x)
    then show ?thesis using sinv ok cl dv
      by (auto simp: sys_inv_def dest: sub)
  next
    case (finish_dispatch i d g st c stepNow now err e s')
    note dvi = dv [OF finish_dispatch(2)]
    have i: "claimed_SagaID d = i" using dvi by (simp add: dispatch_valid_def)
    note st = finish_step [OF sinv ok dispatch_claim_valid [OF dvi] finish_dispatch(3)]
    have "dispatch_valid lookup s' j p" if "inflight S j = Some p" "j \<noteq> i" for j p
    proof -
      have "j \<noteq> claimed_SagaID d" using that(2) i by blast
      then show ?thesis by (intro dispatch_valid_frame [OF _ dv [OF that(1)]] st(4))
    qed
    then show ?thesis
      using finish_dispatch(1) st(1-3) claim_valid_evolves [OF st(2)] cl by (auto simp: sys_inv_def)
  next
    case (lose_worker i p)
    then show ?thesis using sinv ok cl dv by (auto simp: sys_inv_def)
  qed
qed

lemma sys_inv_init: "inv s0 \<Longrightarrow> lookup s0 = Map.empty \<Longrightarrow> sys_inv lookup inv (init_sys s0)"
  by (simp add: sys_inv_def init_sys_def)

lemma reach_inv:
  assumes "sys_reach ops s0 S" and "inv s0" and "lookup s0 = Map.empty"
  shows "sys_inv lookup inv S"
  using assms(1)
proof (induction rule: sys_reach.induct)
  case reach_init
  show ?case using sys_inv_init assms(2,3) .
next
  case (reach_step S T)
  then show ?case using sys_step_inv by blast
qed

end

section \<open>The handlers run as these steps\<close>

lemma process_simulated:
  assumes "d \<in> set (claims S)" and "inflight S (claimed_SagaID d) = None"
    and "processClaimedStepLocked ops dispatch c c' stepNow now d (store_of S) = (e, s')"
  shows "\<exists>T. (sys_step ops)\<^sup>*\<^sup>* S T \<and> store_of T = s' \<and> claims T = remove1 d (claims S) \<and> inflight T = inflight S"
proof (cases "\<exists>g st. loadClaimedStepForDispatch ops c d (store_of S) = Inr (Some (g, st))")
  case True
  then obtain g st where load: "loadClaimedStepForDispatch ops c d (store_of S) = Inr (Some (g, st))" by blast
  let ?M = "S\<lparr>claims := remove1 d (claims S), inflight := (inflight S)(claimed_SagaID d \<mapsto> (d, g, st))\<rparr>"
  obtain e' where upd: "updateClaimedStepAfterDispatch ops c' stepNow now d (dispatch g st) (store_of S) = (e', s')"
    using assms(3) load by (auto simp: processClaimedStepLocked_def Let_def split: prod.splits option.splits)
  have "sys_step ops S ?M" using assms(1,2) load by (rule begin_dispatch)
  moreover have "sys_step ops ?M (?M\<lparr>store_of := s', inflight := (inflight ?M)(claimed_SagaID d := None)\<rparr>)"
    by (rule finish_dispatch [where d = d and g = g and st = st]) (use upd in simp_all)
  ultimately show ?thesis using assms(2)
    by (intro exI [of _ "?M\<lparr>store_of := s', inflight := (inflight ?M)(claimed_SagaID d := None)\<rparr>"])
       (auto simp: fun_upd_idem intro: rtranclp.rtrancl_into_rtrancl)
next
  case False
  then have "sys_step ops S (S\<lparr>claims := remove1 d (claims S)\<rparr>)"
    by (intro skip_claim [OF assms(1,2) refl]) auto
  moreover have "s' = store_of S"
    using assms(3) False by (auto simp: processClaimedStepLocked_def split: sum.splits option.splits)
  ultimately show ?thesis
    by (intro exI [of _ "S\<lparr>claims := remove1 d (claims S)\<rparr>"]) auto
qed

lemma cancel_simulated:
  assumes "inflight S i = None"
    and "CancelSaga (Some ops) sl lockNow deadline requestErr evs lockCtx stepNow now i l (store_of S) = (r, l', s')"
  shows "\<exists>T. (sys_step ops)\<^sup>*\<^sup>* S T \<and> store_of T = s' \<and> claims T = claims S \<and> inflight T = inflight S"
proof -
  obtain u s1 where up: "store_Update ops lockCtx now i (cancelCandidate stepNow) (store_of S) = (u, s1)"
    by (cases "store_Update ops lockCtx now i (cancelCandidate stepNow) (store_of S)")
  have "s' = store_of S \<or> s' = s1" using CancelSaga_state [OF assms(2) up] .
  moreover have "sys_step ops S (S\<lparr>store_of := s1\<rparr>)" using assms(1) up by (rule cancel_saga)
  ultimately show ?thesis
    by (auto intro: exI [of _ S] exI [of _ "S\<lparr>store_of := s1\<rparr>"])
qed

lemma start_simulated:
  assumes "StartSagaWithIdempotencyKey (Some ops) unmarshal rnd now c c' workflow key raw steps (store_of S) = (r, s')"
    and "int (length steps) < 2147483648"
  shows "\<exists>T. (sys_step ops)\<^sup>*\<^sup>* S T \<and> store_of T = s' \<and> claims T = claims S \<and> inflight T = inflight S"
  by (intro exI [of _ "S\<lparr>store_of := s'\<rparr>"] conjI r_into_rtranclp start_saga [OF assms]) simp_all

text \<open>Under the lock or without it, a worker's call does nothing or what the locked section does.\<close>

lemma worker_simulated:
  assumes "d \<in> set (claims S)" and "inflight S (claimed_SagaID d) = None"
    and "processClaimedStep ops sl dispatch lockNow deadline requestErr evs c c' stepNow now d l (store_of S) = (e, l', s')"
  shows "\<exists>T. (sys_step ops)\<^sup>*\<^sup>* S T \<and> store_of T = s' \<and> claims T = remove1 d (claims S) \<and> inflight T = inflight S"
proof -
  let ?fn = "processClaimedStepLocked ops dispatch c c' stepNow now d"
  have "s' \<in> {store_of S, snd (?fn (store_of S))}"
    using assms(3) withSagaLock_state [of sl lockNow deadline requestErr evs "claimed_SagaID d" ?fn l "store_of S"]
    by (simp add: processClaimedStep_def)
  then consider "s' = store_of S" | e1 where "?fn (store_of S) = (e1, s')"
    by (metis insertE prod.collapse singletonD)
  then show ?thesis
  proof cases
    case 1
    then show ?thesis using lose_claim [OF assms(1)]
      by (intro exI [of _ "S\<lparr>claims := remove1 d (claims S)\<rparr>"]) auto
  next
    case 2
    then show ?thesis using process_simulated [OF assms(1,2)] by blast
  qed
qed

text \<open>The claiming loop: its submitted claims are the new claims, those the pool refused are lost.\<close>

lemma run_simulated:
  assumes "Run_loop ops stale rs sub (store_of S) = (b, sub', s')"
  shows "\<exists>T new. (sys_step ops)\<^sup>*\<^sup>* S T \<and> store_of T = s' \<and> sub' = sub @ new
    \<and> claims T = rev new @ claims S \<and> inflight T = inflight S"
  using assms
proof (induction rs arbitrary: sub S)
  case (Cons r rs)
  obtain x s1 where cl: "store_ClaimNextStep ops (ctxClaim r) (clock r) stale (store_of S) = (x, s1)"
    by (cases "store_ClaimNextStep ops (ctxClaim r) (clock r) stale (store_of S)")
  have idle: "\<exists>T new. (sys_step ops)\<^sup>*\<^sup>* S T \<and> store_of T = s' \<and> sub' = sub @ new
      \<and> claims T = rev new @ claims S \<and> inflight T = inflight S"
    if S1: "(sys_step ops)\<^sup>*\<^sup>* S S1" "claims S1 = claims S" "inflight S1 = inflight S"
      and res: "sub' = sub \<and> store_of S1 = s' \<or> Run_loop ops stale rs sub (store_of S1) = (b, sub', s')" for S1
    using res
  proof
    assume "sub' = sub \<and> store_of S1 = s'"
    then show ?thesis using S1 by (intro exI [of _ S1] exI [of _ "[]"]) simp
  next
    assume "Run_loop ops stale rs sub (store_of S1) = (b, sub', s')"
    from Cons.IH [OF this] S1 show ?thesis by (metis rtranclp_trans)
  qed
  show ?case
  proof (cases "isContextAlive (ctxStart r)")
    case False
    then show ?thesis using Cons.prems by (intro idle [of S]) auto
  next
    case alive: True
    show ?thesis
    proof (cases "\<exists>d. x = Inr (Some d)")
      case False
      then have "sys_step ops S (S\<lparr>store_of := s1\<rparr>)" by (intro claim_nothing [OF cl]) auto
      then show ?thesis using Cons.prems alive cl False
        by (intro idle [of "S\<lparr>store_of := s1\<rparr>"])
           (auto split: sum.splits option.splits if_splits)
    next
      case True
      then obtain d where d: "x = Inr (Some d)" by blast
      let ?S = "S\<lparr>store_of := s1, claims := d # claims S\<rparr>"
      have step: "sys_step ops S ?S" using claim_step cl d by metis
      show ?thesis
      proof (cases "submitErr r")
        case None
        then have "Run_loop ops stale rs (sub @ [d]) (store_of ?S) = (b, sub', s')"
          using Cons.prems alive cl d by simp
        from Cons.IH [OF this] obtain T new where T: "(sys_step ops)\<^sup>*\<^sup>* ?S T" "store_of T = s'"
          "sub' = (sub @ [d]) @ new" "claims T = rev new @ claims ?S" "inflight T = inflight ?S" by blast
        then show ?thesis
          using converse_rtranclp_into_rtranclp [OF step T(1)]
          by (intro exI [of _ T] exI [of _ "d # new"]) simp
      next
        case (Some e)
        have "sys_step ops ?S (?S\<lparr>claims := remove1 d (claims ?S)\<rparr>)" by (rule lose_claim) simp
        with step have "(sys_step ops)\<^sup>*\<^sup>* S (?S\<lparr>claims := remove1 d (claims ?S)\<rparr>)" by auto
        then show ?thesis using Cons.prems alive cl d Some
          by (intro idle [of "?S\<lparr>claims := remove1 d (claims ?S)\<rparr>"]) (auto split: if_splits)
      qed
    qed
  qed
qed (auto intro: exI [of _ S])

end
