(* ===== verification/Postgres_Laws.thy ===== *)
theory Postgres_Laws
  imports Postgres System
begin

text \<open>
  The Postgres store implements the interface of the service: what a reader sees of the tables
  (\<open>pg_lookup\<close>), what the tables keep of a saga (\<open>pg_keep\<close>: instants in microseconds, no blank
  error texts, JSON values), the invariant of the tables, and the laws of \<open>saga_store\<close>, for
  every behaviour of the database connection.
\<close>

section \<open>What the columns keep\<close>

definition step_of_row :: "step_row \<Rightarrow> SagaStep" where
  "step_of_row row = \<lparr>step_Name = srow_name row, GRPCTarget = srow_grpc_target row,
     step_Status = to_SagaStepStatus (srow_status row), Attempt = word_of_int (srow_attempt row),
     StartedAt = srow_started_at row, FinishedAt = srow_finished_at row, step_Error = toString (srow_error row)\<rparr>"

definition keep_step :: "SagaStep \<Rightarrow> SagaStep" where
  "keep_step st = st\<lparr>step_Status := to_SagaStepStatus (step_status_string (step_Status st)),
     StartedAt := map_option micro (StartedAt st), FinishedAt := map_option micro (FinishedAt st),
     step_Error := toString (toNullableText (step_Error st))\<rparr>"

definition pg_keep :: "Saga \<Rightarrow> Saga" where
  "pg_keep g = g\<lparr>Status := to_SagaStatus (saga_status_string (Status g)), Context := json_context (Context g),
     Steps := map keep_step (Steps g), CreatedAt := micro (CreatedAt g), UpdatedAt := micro (UpdatedAt g)\<rparr>"

lemma micro_idem [simp]: "micro (micro t) = micro t"
  by (simp add: micro_def)

lemma micro_le_iff: "micro t = t \<Longrightarrow> t \<le> micro u \<longleftrightarrow> t \<le> u"
proof -
  assume t: "micro t = t"
  have "micro u \<le> u" unfolding micro_def by (simp add: minus_mod_eq_div_mult [symmetric])
  moreover have "micro t \<le> micro u" if "t \<le> u"
    unfolding micro_def using zdiv_mono1 [OF that, of 1000] by simp
  ultimately show ?thesis using t by auto
qed

lemma json_value_idem [simp]: "json_value (json_value v) = json_value v"
proof (induction v)
  case (ASlice xs)
  then show ?case by (cases xs) (auto intro!: map_cong)
next
  case (AMap m)
  show ?case
  proof (cases m)
    case (Some f)
    then have "json_value (json_value v) = json_value v" if "f k = Some v" for k v
      using AMap [of f "f k" v] that rangeI [of f k] by simp
    then have "map_option json_value (map_option json_value (f k)) = map_option json_value (f k)" for k
      by (cases "f k") auto
    then show ?thesis using Some by (simp add: comp_def)
  qed (simp add: comp_def)
qed simp_all

lemma json_context_idem [simp]: "json_context (json_context c) = json_context c"
  by (cases c) (simp_all add: json_context_def comp_def option.map_comp)

lemma toString_kept [simp]: "toString (toNullableText (toString (toNullableText s))) = toString (toNullableText s)"
  by (simp add: toString_def toNullableText_def)

lemma string_to_SagaStatus [simp]: "saga_status_string (to_SagaStatus s) = s"
  by (simp add: to_SagaStatus_def)

lemma string_to_SagaStepStatus [simp]: "step_status_string (to_SagaStepStatus s) = s"
  by (simp add: to_SagaStepStatus_def)

lemma to_SagaStatus_eq:
  "to_SagaStatus s = SagaStatusCreated \<longleftrightarrow> s = ''CREATED''"
  "to_SagaStatus s = SagaStatusRunning \<longleftrightarrow> s = ''RUNNING''"
  "to_SagaStatus s = SagaStatusCanceling \<longleftrightarrow> s = ''CANCELING''"
  by (simp_all add: to_SagaStatus_def)

lemma to_SagaStepStatus_eq:
  "to_SagaStepStatus s = SagaStepStatusPending \<longleftrightarrow> s = ''PENDING''"
  "to_SagaStepStatus s = SagaStepStatusRunning \<longleftrightarrow> s = ''RUNNING''"
  "to_SagaStepStatus s = SagaStepStatusCompleted \<longleftrightarrow> s = ''COMPLETED''"
  "to_SagaStepStatus s = SagaStepStatusCompensating \<longleftrightarrow> s = ''COMPENSATING''"
  by (simp_all add: to_SagaStepStatus_def)

lemma keep_step_idem [simp]: "keep_step (keep_step st) = keep_step st"
  by (cases st) (simp add: keep_step_def option.map_comp comp_def)

lemma ParseSagaStatus_checked: "saga_status_check s \<Longrightarrow> ParseSagaStatus s = Inr (to_SagaStatus s)"
  unfolding saga_status_check_def by (simp del: set_simps add: set_simps(2)) (elim disjE; simp; code_simp)

lemma ParseSagaStepStatus_checked: "step_status_check s \<Longrightarrow> ParseSagaStepStatus s = Inr (to_SagaStepStatus s)"
  unfolding step_status_check_def by (simp del: set_simps add: set_simps(2)) (elim disjE; simp; code_simp)

lemma sint_attempt: "word_of_int (sint (a :: 32 word)) = a" "sint (a :: 32 word) \<le> 2147483647"
  using sint_lt [of a] by simp_all

section \<open>The invariant of the tables\<close>

definition step_row_ok :: "step_row \<Rightarrow> bool" where
  "step_row_ok row \<longleftrightarrow> step_status_check (srow_status row) \<and> 0 \<le> srow_attempt row \<and> srow_attempt row \<le> 2147483647
     \<and> keep_step (step_of_row row) = step_of_row row"

definition saga_row_ok :: "saga_row \<Rightarrow> bool" where
  "saga_row_ok row \<longleftrightarrow> saga_status_check (row_status row) \<and> json_context (row_context row) = row_context row
     \<and> micro (row_created_at row) = row_created_at row \<and> micro (row_updated_at row) = row_updated_at row"

text \<open>The step rows of a saga are numbered from 0 without a gap.\<close>

definition dense :: "pg_db \<Rightarrow> string \<Rightarrow> nat \<Rightarrow> bool" where
  "dense db i n \<longleftrightarrow> (\<forall>k. map_of (step_rows db) (i, k) \<noteq> None \<longleftrightarrow> 0 \<le> k \<and> k < int n)"

definition pg_inv :: "pg_db \<Rightarrow> bool" where
  "pg_inv db \<longleftrightarrow> distinct (map fst (saga_rows db)) \<and> distinct (map fst (step_rows db))
     \<and> (\<forall>i row. map_of (saga_rows db) i = Some row \<longrightarrow>
          saga_row_ok row \<and> (\<exists>n. int n < 2147483648 \<and> dense db i n))
     \<and> (\<forall>i k row. map_of (step_rows db) (i, k) = Some row \<longrightarrow>
          step_row_ok row \<and> map_of (saga_rows db) i \<noteq> None)"

definition saga_of_row :: "pg_db \<Rightarrow> string \<Rightarrow> saga_row \<Rightarrow> Saga" where
  "saga_of_row db i row = \<lparr>ID = i, Workflow = row_workflow row, Status = to_SagaStatus (row_status row),
     Context = row_context row, Steps = map step_of_row (sql_GetSagaSteps i db),
     CreatedAt = row_created_at row, UpdatedAt = row_updated_at row\<rparr>"

definition pg_lookup :: "pg_db \<Rightarrow> string \<Rightarrow> Saga option" where
  "pg_lookup db i = map_option (saga_of_row db i) (map_of (saga_rows db) i)"

lemma pg_inv_empty [simp]: "pg_inv empty_db"
  by (simp add: pg_inv_def empty_db_def)

lemma pg_lookup_empty [simp]: "pg_lookup empty_db = Map.empty"
  by (simp add: pg_lookup_def empty_db_def fun_eq_iff)

lemma pg_invD:
  assumes "pg_inv db"
  shows "distinct (map fst (saga_rows db))" and "distinct (map fst (step_rows db))"
    and "map_of (saga_rows db) i = Some row \<Longrightarrow> saga_row_ok row"
    and "map_of (saga_rows db) i = Some row \<Longrightarrow> \<exists>n. int n < 2147483648 \<and> dense db i n"
    and "map_of (step_rows db) (i, k) = Some r \<Longrightarrow> step_row_ok r"
    and "map_of (step_rows db) (i, k) = Some r \<Longrightarrow> map_of (saga_rows db) i \<noteq> None"
  using assms unfolding pg_inv_def by blast+

lemma dense_unique: "dense db i n \<Longrightarrow> dense db i m \<Longrightarrow> n = m"
proof (rule ccontr)
  assume d: "dense db i n" "dense db i m" and "n \<noteq> m"
  then have "0 \<le> k \<and> k < int n \<longleftrightarrow> 0 \<le> k \<and> k < int m" for k unfolding dense_def by blast
  from this [of "int n"] this [of "int m"] show False using \<open>n \<noteq> m\<close> by auto
qed

section \<open>Reading the steps\<close>

lemma sort_key_fixed:
  fixes f :: "'a \<Rightarrow> 'k::linorder"
  assumes "sorted (map f xs)"
  shows "sort_key f xs = xs"
  using assms by (intro properties_for_sort_key) simp_all

lemma steps_read:
  assumes d: "distinct (map fst (step_rows db))" and n: "dense db i n"
  shows "sql_GetSagaSteps i db = map (\<lambda>k. the (map_of (step_rows db) (i, int k))) [0..<n]"
proof -
  let ?f = "\<lambda>((i, k), row). k :: int"
  let ?xs = "filter (\<lambda>((j, k), row). j = i) (step_rows db)"
  let ?ys = "map (\<lambda>k. ((i, int k), the (map_of (step_rows db) (i, int k)))) [0..<n]"
  have "p \<in> set ?xs \<longleftrightarrow> p \<in> set ?ys" for p
  proof -
    obtain j k r where p: "p = ((j, k), r)" by (metis prod.exhaust)
    have "p \<in> set ?xs \<longleftrightarrow> j = i \<and> map_of (step_rows db) (i, k) = Some r"
      using map_of_Some_in_set_iff [OF d] p by auto
    also have "\<dots> \<longleftrightarrow> j = i \<and> (0 \<le> k \<and> k < int n) \<and> r = the (map_of (step_rows db) (i, k))"
      using n unfolding dense_def by (metis option.collapse option.sel option.distinct(1))
    also have "\<dots> \<longleftrightarrow> p \<in> set ?ys"
      unfolding p by (auto simp: image_iff intro!: bexI [of _ "nat k"])
    finally show ?thesis .
  qed
  then have sets: "set ?xs = set ?ys" by blast
  have dx: "distinct ?xs" using d by (simp add: distinct_map)
  have dy: "distinct ?ys" by (simp add: distinct_map inj_on_def)
  have "mset ?xs = mset ?ys" using set_eq_iff_mset_eq_distinct [OF dx dy] sets by blast
  moreover have "inj_on ?f (set ?xs)"
    unfolding sets by (auto simp: inj_on_def)
  ultimately have "sort_key ?f ?xs = sort_key ?f ?ys" by (rule sort_key_unique)
  also have "\<dots> = ?ys" by (intro sort_key_fixed) (simp add: comp_def sorted_iff_nth_mono)
  finally show ?thesis by (simp add: sql_GetSagaSteps_def comp_def)
qed

lemma pg_lookup_steps:
  assumes "pg_inv db" and "map_of (saga_rows db) i = Some row" and "dense db i n"
  shows "pg_lookup db i = Some \<lparr>ID = i, Workflow = row_workflow row, Status = to_SagaStatus (row_status row),
     Context = row_context row, Steps = map (\<lambda>k. step_of_row (the (map_of (step_rows db) (i, int k)))) [0..<n],
     CreatedAt = row_created_at row, UpdatedAt = row_updated_at row\<rparr>"
  using assms by (simp add: pg_lookup_def saga_of_row_def steps_read pg_invD(2) comp_def)

lemma pg_lookup_cong:
  assumes "pg_inv db" and "pg_inv db'" and "map_of (saga_rows db') i = map_of (saga_rows db) i"
    and "\<And>k. map_of (step_rows db') (i, k) = map_of (step_rows db) (i, k)"
  shows "pg_lookup db' i = pg_lookup db i"
proof (cases "map_of (saga_rows db) i")
  case (Some row)
  then obtain n where n: "dense db i n" using pg_invD(4) [OF assms(1)] by blast
  then have "dense db' i n" unfolding dense_def assms(4) by simp
  then show ?thesis
    using pg_lookup_steps [OF assms(1) Some n] pg_lookup_steps [OF assms(2) _ \<open>dense db' i n\<close>] Some assms(3,4) by simp
qed (simp add: pg_lookup_def assms(3))

lemma pg_lookup_kept:
  assumes "pg_inv db" and "pg_lookup db i = Some g"
  shows "pg_keep g = g" and "ID g = i"
proof -
  from assms(2) obtain row where row: "map_of (saga_rows db) i = Some row" by (auto simp: pg_lookup_def)
  then obtain n where n: "dense db i n" using pg_invD(4) [OF assms(1)] by blast
  note g = pg_lookup_steps [OF assms(1) row n, unfolded assms(2)]
  have "keep_step (step_of_row (the (map_of (step_rows db) (i, int k)))) = step_of_row (the (map_of (step_rows db) (i, int k)))"
    if "k < n" for k
  proof -
    have "map_of (step_rows db) (i, int k) \<noteq> None" using n that by (simp add: dense_def)
    then show ?thesis using pg_invD(5) [OF assms(1)] by (auto simp: step_row_ok_def)
  qed
  then show "pg_keep g = g" "ID g = i"
    using g pg_invD(3) [OF assms(1) row] by (auto simp: pg_keep_def saga_row_ok_def comp_def)
qed

section \<open>Writing the steps\<close>

text \<open>The row stored for a step.\<close>

definition holds_step :: "SagaStep \<Rightarrow> step_row \<Rightarrow> bool" where
  "holds_step st row \<longleftrightarrow> step_row_ok row \<and> step_of_row row = keep_step st"

lemma map_of_filter_key:
  "(\<And>k v. Q (k, v) = P k) \<Longrightarrow> map_of (filter Q xs) k = (if P k then map_of xs k else None)"
  by (induction xs) auto

lemma distinct_fst_filter: "distinct (map fst xs) \<Longrightarrow> distinct (map fst (filter Q xs))"
  by (induction xs) auto

lemma db_call_Inr: "db_call env ctx n r = Inr x \<Longrightarrow> r = Inr x"
  by (auto simp: db_call_def split: option.splits)

lemma wrap32_id: "0 \<le> x \<Longrightarrow> x < 2147483648 \<Longrightarrow> wrap32 x = x"
  by (simp add: wrap32_def)

text \<open>The proposed row of a step passes the checks of the table only if it holds the step.\<close>

lemma upsert_row_holds:
  assumes "step_status_check (step_status_string (step_Status st))" and "0 \<le> sint (Attempt st)"
  shows "holds_step st \<lparr>srow_id = x, srow_name = step_Name st, srow_grpc_target = GRPCTarget st,
     srow_status = step_status_string (step_Status st), srow_attempt = sint (Attempt st),
     srow_started_at = map_option micro (toNullablePGTime (StartedAt st)),
     srow_finished_at = map_option micro (toNullablePGTime (FinishedAt st)),
     srow_error = toNullableText (step_Error st), srow_updated_at = u\<rparr>" (is "holds_step st ?r")
proof -
  have t: "toNullablePGTime x = x" for x by (cases x) (simp_all add: toNullablePGTime_def)
  have "step_of_row ?r = keep_step st"
    by (simp add: step_of_row_def keep_step_def t sint_attempt)
  then show ?thesis using assms sint_attempt(2) [of "Attempt st"] by (simp add: holds_step_def step_row_ok_def)
qed

lemma upsert_effect:
  assumes "sql_UpsertSagaStep env i k
      \<lparr>srow_id = x, srow_name = step_Name st, srow_grpc_target = GRPCTarget st,
       srow_status = step_status_string (step_Status st), srow_attempt = sint (Attempt st),
       srow_started_at = map_option micro (toNullablePGTime (StartedAt st)),
       srow_finished_at = map_option micro (toNullablePGTime (FinishedAt st)),
       srow_error = toNullableText (step_Error st), srow_updated_at = u\<rparr> db = Inr db'"
  shows "\<exists>r. holds_step st r \<and> map_of (step_rows db') = (map_of (step_rows db))((i, k) \<mapsto> r)
    \<and> saga_rows db' = saga_rows db \<and> 0 \<le> k
    \<and> (distinct (map fst (step_rows db)) \<longrightarrow> distinct (map fst (step_rows db')))"
proof -
  let ?row = "\<lambda>y v. \<lparr>srow_id = y, srow_name = step_Name st, srow_grpc_target = GRPCTarget st,
       srow_status = step_status_string (step_Status st), srow_attempt = sint (Attempt st),
       srow_started_at = map_option micro (toNullablePGTime (StartedAt st)),
       srow_finished_at = map_option micro (toNullablePGTime (FinishedAt st)),
       srow_error = toNullableText (step_Error st), srow_updated_at = v\<rparr>"
  have ok: "0 \<le> k" "step_status_check (step_status_string (step_Status st))" "0 \<le> sint (Attempt st)"
    using assms by (auto simp: sql_UpsertSagaStep_def split: if_splits)
  obtain y v where "step_rows db' = AList.update (i, k) (?row y v) (step_rows db)" "saga_rows db' = saga_rows db"
  proof (cases "map_of (step_rows db) (i, k)")
    case None
    then show ?thesis using assms ok by (intro that) (auto simp: sql_UpsertSagaStep_def)
  next
    case (Some old)
    then show ?thesis using assms ok by (intro that) (auto simp: sql_UpsertSagaStep_def)
  qed
  then show ?thesis
    using ok upsert_row_holds [OF ok(2,3)] by (intro exI [of _ "?row y v"]) (simp add: map_of_update distinct_update)
qed

lemma replaceSteps_loop_effect:
  assumes "replaceSteps_loop env ctx n i m steps db = Inr db'"
    and "distinct (map fst (step_rows db))" and "int (m + length steps) \<le> 2147483648"
  shows "saga_rows db' = saga_rows db \<and> distinct (map fst (step_rows db'))
    \<and> (\<forall>j k. (j, k) \<notin> {i} \<times> {int m..<int (m + length steps)} \<longrightarrow>
          map_of (step_rows db') (j, k) = map_of (step_rows db) (j, k))
    \<and> (\<forall>l < length steps. \<exists>r. map_of (step_rows db') (i, int (m + l)) = Some r \<and> holds_step (steps ! l) r)"
  using assms
proof (induction steps arbitrary: n m db)
  case (Cons st steps)
  from Cons.prems(1) obtain db1 where
    up: "sql_UpsertSagaStep env i (wrap32 (int m))
        \<lparr>srow_id = 0, srow_name = step_Name st, srow_grpc_target = GRPCTarget st,
         srow_status = step_status_string (step_Status st), srow_attempt = sint (Attempt st),
         srow_started_at = map_option micro (toNullablePGTime (StartedAt st)),
         srow_finished_at = map_option micro (toNullablePGTime (FinishedAt st)),
         srow_error = toNullableText (step_Error st), srow_updated_at = 0\<rparr> db = Inr db1"
    and rest: "replaceSteps_loop env ctx (n + 1) i (m + 1) steps db1 = Inr db'"
    by (auto split: sum.splits dest: db_call_Inr)
  have "wrap32 (int m) = int m" using Cons.prems(3) by (intro wrap32_id) auto
  with upsert_effect [OF up] Cons.prems(2) obtain r where r: "holds_step st r"
    "map_of (step_rows db1) = (map_of (step_rows db))((i, int m) \<mapsto> r)" "saga_rows db1 = saga_rows db"
    "distinct (map fst (step_rows db1))" by auto
  from Cons.IH [OF rest r(4)] Cons.prems(3) have ih: "saga_rows db' = saga_rows db1" "distinct (map fst (step_rows db'))"
    "\<And>j k. (j, k) \<notin> {i} \<times> {int (m + 1)..<int (m + 1 + length steps)} \<Longrightarrow>
          map_of (step_rows db') (j, k) = map_of (step_rows db1) (j, k)"
    "\<And>l. l < length steps \<Longrightarrow> \<exists>r. map_of (step_rows db') (i, int (m + 1 + l)) = Some r \<and> holds_step (steps ! l) r"
    by auto
  have "\<exists>r. map_of (step_rows db') (i, int (m + l)) = Some r \<and> holds_step ((st # steps) ! l) r"
    if "l < length (st # steps)" for l
  proof (cases l)
    case 0
    have "map_of (step_rows db') (i, int m) = Some r" using ih(3) [of i "int m"] r(2) by simp
    then show ?thesis using 0 r(1) by simp
  next
    case (Suc l')
    then show ?thesis using ih(4) [of l'] that by simp
  qed
  moreover have "map_of (step_rows db') (j, k) = map_of (step_rows db) (j, k)"
    if "(j, k) \<notin> {i} \<times> {int m..<int (m + length (st # steps))}" for j k
    using ih(3) [of j k] that r(2) by (auto simp: fun_upd_apply)
  ultimately show ?case using ih(1,2) r(3) by simp
qed simp

lemma delete_effect:
  "map_of (step_rows (sql_DeleteSagaStepsFromIndex i n db)) (j, k)
    = (if j = i \<and> n \<le> k then None else map_of (step_rows db) (j, k))"
proof -
  have "map_of (filter (\<lambda>((j, k), row). \<not> (j = i \<and> k \<ge> n)) xs) (j, k)
      = (if \<not> (j = i \<and> n \<le> k) then map_of xs (j, k) else None)" for xs :: "((string \<times> int) \<times> step_row) list"
    by (subst map_of_filter_key [where P = "\<lambda>(j, k). \<not> (j = i \<and> n \<le> k)"]) auto
  then show ?thesis by (simp only: sql_DeleteSagaStepsFromIndex_def) simp
qed

text \<open>After the steps of a saga have been replaced, its rows hold exactly those steps.\<close>

lemma replaceSteps_effect:
  assumes "replaceSteps env ctx n i steps db = Inr db'"
    and "distinct (map fst (step_rows db))" and "int (length steps) < 2147483648"
    and "\<forall>k. map_of (step_rows db) (i, k) \<noteq> None \<longrightarrow> 0 \<le> k"
  shows "saga_rows db' = saga_rows db" and "distinct (map fst (step_rows db'))"
    and "j \<noteq> i \<Longrightarrow> map_of (step_rows db') (j, k) = map_of (step_rows db) (j, k)"
    and "dense db' i (length steps)"
    and "l < length steps \<Longrightarrow> \<exists>r. map_of (step_rows db') (i, int l) = Some r \<and> holds_step (steps ! l) r"
proof -
  from assms(1) obtain db1 where loop: "replaceSteps_loop env ctx n i 0 steps db = Inr db1"
    and del: "db' = sql_DeleteSagaStepsFromIndex i (wrap32 (int (length steps))) db1"
    by (auto simp: replaceSteps_def split: sum.splits dest!: db_call_Inr)
  have "wrap32 (int (length steps)) = int (length steps)" using assms(3) by (intro wrap32_id) auto
  then have db': "map_of (step_rows db') (j, k)
      = (if j = i \<and> int (length steps) \<le> k then None else map_of (step_rows db1) (j, k))" for j k
    unfolding del by (simp add: delete_effect)
  from replaceSteps_loop_effect [OF loop assms(2)] assms(3)
  have db1: "saga_rows db1 = saga_rows db" "distinct (map fst (step_rows db1))"
    "\<And>j k. (j, k) \<notin> {i} \<times> {0..<int (length steps)} \<Longrightarrow> map_of (step_rows db1) (j, k) = map_of (step_rows db) (j, k)"
    "\<And>l. l < length steps \<Longrightarrow> \<exists>r. map_of (step_rows db1) (i, int l) = Some r \<and> holds_step (steps ! l) r"
    by auto
  show "saga_rows db' = saga_rows db" using db1(1) by (simp add: del sql_DeleteSagaStepsFromIndex_def)
  show "distinct (map fst (step_rows db'))"
    using db1(2) by (simp add: del sql_DeleteSagaStepsFromIndex_def distinct_fst_filter)
  show "map_of (step_rows db') (j, k) = map_of (step_rows db) (j, k)" if "j \<noteq> i"
    using db1(3) [of j k] that by (simp add: db')
  show "\<exists>r. map_of (step_rows db') (i, int l) = Some r \<and> holds_step (steps ! l) r" if "l < length steps"
    using db1(4) [OF that] that by (simp add: db')
  have "map_of (step_rows db') (i, k) \<noteq> None \<longleftrightarrow> 0 \<le> k \<and> k < int (length steps)" for k
  proof (cases "0 \<le> k \<and> k < int (length steps)")
    case True
    then have "nat k < length steps" "int (nat k) = k" by (simp_all add: nat_less_iff)
    then have "\<exists>r. map_of (step_rows db1) (i, k) = Some r" using db1(4) by metis
    then show ?thesis using True by (auto simp: db')
  next
    case False
    then show ?thesis using db1(3) [of i k] assms(4) by (auto simp: db')
  qed
  then show "dense db' i (length steps)" by (simp add: dense_def)
qed

section \<open>Writing a saga\<close>

text \<open>The row of \<^verbatim>\<open>sagas\<close> that holds a saga.\<close>

definition holds_saga :: "Saga \<Rightarrow> saga_row \<Rightarrow> bool" where
  "holds_saga g row \<longleftrightarrow> saga_row_ok row \<and> row_workflow row = Workflow g
     \<and> row_status row = saga_status_string (Status g) \<and> row_context row = json_context (Context g)
     \<and> row_created_at row = micro (CreatedAt g) \<and> row_updated_at row = micro (UpdatedAt g)"

lemma saga_written:
  assumes inv: "pg_inv db" and saga: "map_of (saga_rows db1) = (map_of (saga_rows db))(ID g \<mapsto> row)"
    and dist: "distinct (map fst (saga_rows db1))" and same: "step_rows db1 = step_rows db"
    and row: "holds_saga g row" and few: "int (length (Steps g)) < 2147483648"
    and steps: "replaceSteps env ctx n (ID g) (Steps g) db1 = Inr db2"
  shows "pg_inv db2 \<and> pg_lookup db2 = (pg_lookup db)(ID g \<mapsto> pg_keep g)"
proof -
  have nonneg: "\<forall>k. map_of (step_rows db1) (ID g, k) \<noteq> None \<longrightarrow> 0 \<le> k"
    using pg_invD(4,6) [OF inv] unfolding same dense_def by fast
  note eff = replaceSteps_effect [OF steps pg_invD(2) [OF inv, folded same] few nonneg]
  have rows: "step_row_ok r \<and> map_of (saga_rows db2) i \<noteq> None" if "map_of (step_rows db2) (i, k) = Some r" for i k r
  proof (cases "i = ID g")
    case True
    have k: "0 \<le> k \<and> k < int (length (Steps g))" using eff(4) that True by (auto simp: dense_def)
    then have "nat k < length (Steps g)" "int (nat k) = k" by (simp_all add: nat_less_iff)
    then obtain r' where "map_of (step_rows db2) (i, k) = Some r'" "holds_step (Steps g ! nat k) r'"
      using eff(5) True by metis
    then show ?thesis using that True eff(1) saga by (simp add: holds_step_def)
  next
    case False
    then have "map_of (step_rows db) (i, k) = Some r" using that eff(3) same by metis
    then show ?thesis using pg_invD(5,6) [OF inv] False eff(1) saga by auto
  qed
  have heads: "saga_row_ok x \<and> (\<exists>n. int n < 2147483648 \<and> dense db2 i n)" if "map_of (saga_rows db2) i = Some x" for i x
  proof (cases "i = ID g")
    case True
    then show ?thesis using that eff(1,4) saga row few by (auto simp: holds_saga_def)
  next
    case False
    then have "map_of (saga_rows db) i = Some x" using that eff(1) saga by simp
    then show ?thesis using pg_invD(3,4) [OF inv] eff(3) [OF False] same by (auto simp: dense_def)
  qed
  have inv2: "pg_inv db2"
    unfolding pg_inv_def using rows heads dist eff(1,2) by (intro conjI allI impI) auto
  have "pg_lookup db2 i = ((pg_lookup db)(ID g \<mapsto> pg_keep g)) i" for i
  proof (cases "i = ID g")
    case True
    have "step_of_row (the (map_of (step_rows db2) (ID g, int k))) = keep_step (Steps g ! k)"
      if "k < length (Steps g)" for k using eff(5) [OF that] by (auto simp: holds_step_def)
    then have "map (\<lambda>k. step_of_row (the (map_of (step_rows db2) (ID g, int k)))) [0..<length (Steps g)]
        = map keep_step (Steps g)" by (intro nth_equalityI) auto
    then show ?thesis
      using pg_lookup_steps [OF inv2 _ eff(4)] True saga eff(1) row by (simp add: pg_keep_def holds_saga_def)
  next
    case False
    then show ?thesis using pg_lookup_cong [OF inv inv2] eff(1) eff(3) [OF False] saga same by simp
  qed
  then show ?thesis using inv2 by auto
qed

lemma holds_saga_row:
  assumes "saga_status_check (saga_status_string (Status g))"
  shows "holds_saga g \<lparr>row_workflow = Workflow g, row_status = saga_status_string (Status g),
    row_context = json_context (Context g), row_created_at = micro (CreatedAt g),
    row_updated_at = micro (UpdatedAt g)\<rparr>"
  using assms by (simp add: holds_saga_def saga_row_ok_def)

text \<open>Representable sagas.\<close>

definition pg_fits :: "Saga \<Rightarrow> bool" where
  "pg_fits g \<longleftrightarrow> int (length (Steps g)) < 2147483648"

lemma pg_create_ok:
  assumes "pg_inv db" and "Postgres_Create env c g db = (None, db')" and "pg_fits g"
  shows "pg_inv db' \<and> pg_lookup db (ID g) = None \<and> pg_lookup db' = (pg_lookup db)(ID g \<mapsto> pg_keep g)"
proof -
  let ?row = "\<lparr>row_workflow = Workflow g, row_status = saga_status_string (Status g),
    row_context = json_context (Context g), row_created_at = micro (CreatedAt g),
    row_updated_at = micro (UpdatedAt g)\<rparr>"
  from assms(2) obtain db1 where cr: "sql_CreateSaga env (ID g) ?row db = Inr db1"
    and st: "replaceSteps env c 2 (ID g) (Steps g) db1 = Inr db'"
    by (auto simp: Postgres_Create_def toPGTime_def split: option.splits sum.splits if_splits dest!: db_call_Inr)
  from cr have new: "map_of (saga_rows db) (ID g) = None" "saga_status_check (saga_status_string (Status g))"
    "db1 = db\<lparr>saga_rows := (ID g, ?row) # saga_rows db\<rparr>"
    by (auto simp: sql_CreateSaga_def split: if_splits option.splits)
  have "ID g \<notin> fst ` set (saga_rows db)" using new(1) by (simp add: map_of_eq_None_iff)
  then have "pg_inv db' \<and> pg_lookup db' = (pg_lookup db)(ID g \<mapsto> pg_keep g)"
    using assms(1,3) new holds_saga_row [OF new(2)] pg_invD(1) [OF assms(1)] st
    by (intro saga_written [OF assms(1), of db1]) (auto simp: pg_fits_def)
  then show ?thesis using new(1) by (simp add: pg_lookup_def)
qed

lemma pg_create_error:
  assumes "Postgres_Create env c g db = (Some e, db')"
  shows "db' = db"
  using assms by (auto simp: Postgres_Create_def split: option.splits sum.splits if_splits)

lemma db_call_not_sentinel:
  "db_call env c n (Inr x) = Inl e \<Longrightarrow> \<not> errors_Is e (StoreErr y)"
  by (auto simp: db_call_def split: option.splits)

section \<open>Reading a saga\<close>

lemma pg_parseContext_stored: "Postgres_parseContext env stored = Inr parsed \<Longrightarrow> parsed = stored"
  by (auto simp: Postgres_parseContext_def ParseSagaContext_def split: sum.splits option.splits if_splits)

lemma pg_parseContext_error: "Postgres_parseContext env stored = Inl e \<Longrightarrow> \<not> errors_Is e (StoreErr x)"
  by (auto simp: Postgres_parseContext_def split: sum.splits)

lemma mapSagaRow_ok:
  assumes "mapSagaRow env i row = Inr g" and "saga_row_ok row"
  shows "g\<lparr>Steps := map step_of_row (sql_GetSagaSteps i db)\<rparr> = saga_of_row db i row"
  using assms ParseSagaStatus_checked [of "row_status row"]
  by (auto simp: mapSagaRow_def saga_row_ok_def saga_of_row_def split: sum.splits dest!: pg_parseContext_stored)

lemma mapSagaRow_error:
  "mapSagaRow env i row = Inl e \<Longrightarrow> \<not> errors_Is e (StoreErr x)"
  by (auto simp: mapSagaRow_def split: sum.splits dest: pg_parseContext_error)

lemma mapStepRow_ok:
  assumes "step_row_ok row"
  shows "mapStepRow (srow_name row) (srow_grpc_target row) (srow_status row)
     (srow_attempt row) (srow_started_at row) (srow_finished_at row) (srow_error row) = Inr (step_of_row row)"
proof -
  have t: "toTimePtr x = x" for x by (cases x) (simp_all add: toTimePtr_def)
  show ?thesis using assms
    by (simp add: mapStepRow_def step_row_ok_def ParseSagaStepStatus_checked step_of_row_def t)
qed

lemma mapRows_ok: "(\<And>x. x \<in> set xs \<Longrightarrow> f x = Inr (h x)) \<Longrightarrow> mapRows xs f acc = Inr (acc @ map h xs)"
  by (induction xs arbitrary: acc) simp_all

lemma steps_read_ok:
  assumes "pg_inv db" and "row \<in> set (sql_GetSagaSteps i db)"
  shows "step_row_ok row"
proof -
  from assms(2) obtain j k where "((j, k), row) \<in> set (step_rows db)"
    by (auto simp: sql_GetSagaSteps_def)
  then show ?thesis using pg_invD(5) [OF assms(1)] map_of_Some_in_set_iff [OF pg_invD(2) [OF assms(1)]] by blast
qed

lemma mapStepRows_ok:
  assumes "pg_inv db"
  shows "mapStepRows (sql_GetSagaSteps i db) = Inr (map step_of_row (sql_GetSagaSteps i db))"
proof -
  have "mapStepRows (sql_GetSagaSteps i db) = Inr ([] @ map step_of_row (sql_GetSagaSteps i db))"
    unfolding mapStepRows_def using steps_read_ok [OF assms]
    by (intro mapRows_ok) (simp add: mapStepRow_ok)
  then show ?thesis by simp
qed

lemma fetchSteps_ok:
  assumes "pg_inv db" and "fetchSteps env c n i db = Inr steps"
  shows "steps = map step_of_row (sql_GetSagaSteps i db)"
  using assms mapStepRows_ok [OF assms(1), of i]
  by (auto simp: fetchSteps_def split: sum.splits dest!: db_call_Inr)

lemma fetchSteps_error:
  assumes "pg_inv db" and "fetchSteps env c n i db = Inl e"
  shows "\<not> errors_Is e (StoreErr x)"
proof (cases "db_call env c n (Inr (sql_GetSagaSteps i db))")
  case (Inl e')
  then show ?thesis using assms(2) by (simp add: fetchSteps_def db_call_not_sentinel)
next
  case (Inr rows)
  then have "rows = sql_GetSagaSteps i db" by (auto dest: db_call_Inr)
  then show ?thesis using assms(2) Inr mapStepRows_ok [OF assms(1), of i] by (simp add: fetchSteps_def)
qed

text \<open>The two reads of an operation give the saga a reader sees.\<close>

lemma pg_read:
  assumes "pg_inv db" and "db_call env c n (sql_GetSaga env i db) = Inr row"
    and "mapSagaRow env i row = Inr g" and "fetchSteps env c m i db = Inr steps"
  shows "pg_lookup db i = Some (g\<lparr>Steps := steps\<rparr>)" and "map_of (saga_rows db) i = Some row"
proof -
  show row: "map_of (saga_rows db) i = Some row"
    using assms(2) by (auto simp: sql_GetSaga_def split: option.splits dest!: db_call_Inr)
  show "pg_lookup db i = Some (g\<lparr>Steps := steps\<rparr>)"
    using mapSagaRow_ok [OF assms(3) pg_invD(3) [OF assms(1) row], of db] fetchSteps_ok [OF assms(1,4)] row
    by (simp add: pg_lookup_def)
qed

lemma pg_get_ok:
  assumes "pg_inv db" and "Postgres_Get env c i db = Inr g"
  shows "pg_lookup db i = Some g"
  using assms(2) pg_read(1) [OF assms(1)]
  by (auto simp: Postgres_Get_def split: sum.splits dest!: db_call_Inr [where r = "Inr x" for x])

lemma mapNoRows_missing:
  assumes "db_call env c n (sql_GetSaga env i db) = Inl e" and "errors_Is (mapNoRows e) (StoreErr ErrNotFound)"
  shows "map_of (saga_rows db) i = None"
  using assms by (auto simp: db_call_def sql_GetSaga_def mapNoRows_def split: option.splits if_splits)

lemma pg_get_missing:
  assumes "pg_inv db" and "Postgres_Get env c i db = Inl e" and "errors_Is e (StoreErr ErrNotFound)"
  shows "pg_lookup db i = None"
proof -
  from assms(2,3) obtain e' where "db_call env c 1 (sql_GetSaga env i db) = Inl e'" "e = mapNoRows e'"
    by (auto simp: Postgres_Get_def split: sum.splits
        dest: db_call_not_sentinel mapSagaRow_error fetchSteps_error [OF assms(1)])
  then show ?thesis using mapNoRows_missing assms(3) by (simp add: pg_lookup_def)
qed

section \<open>Updates\<close>

lemma pg_update_error:
  assumes "Postgres_Update env c now i fn db = (Inl e, db')"
  shows "db' = db"
  using assms by (auto simp: Postgres_Update_def Let_def split: option.splits sum.splits)

lemma sql_UpdateSaga_effect:
  assumes "sql_UpdateSaga env i workflow status sagaContext updatedAt db = Inr db1"
    and "map_of (saga_rows db) i = Some row"
  shows "saga_status_check status \<and> db1 = db\<lparr>saga_rows := AList.update i (row\<lparr>row_workflow := workflow,
    row_status := status, row_context := sagaContext, row_updated_at := updatedAt\<rparr>) (saga_rows db)\<rparr>"
  using assms by (auto simp: sql_UpdateSaga_def split: if_splits)

lemma pg_update_ok:
  assumes inv: "pg_inv db" and upd: "Postgres_Update env c now i fn db = (Inr g', db')"
    and frame: "\<And>g h. fn g = Inr h \<Longrightarrow> saga_frame g h"
  shows "pg_inv db' \<and> (\<exists>g h. pg_lookup db i = Some g \<and> fn g = Inr h \<and> g' = Clone (h\<lparr>UpdatedAt := now\<rparr>)
    \<and> pg_lookup db' = (pg_lookup db)(i \<mapsto> pg_keep (h\<lparr>UpdatedAt := now\<rparr>)))"
proof -
  from upd obtain row g0 steps h0 db1 where read: "db_call env c 1 (sql_GetSaga env i db) = Inr row"
      "mapSagaRow env i row = Inr g0" "fetchSteps env c 2 i db = Inr steps"
    and fn: "fn (g0\<lparr>Steps := steps\<rparr>) = Inr h0"
    and head: "sql_UpdateSaga env (ID h0) (Workflow h0) (saga_status_string (Status h0)) (json_context (Context h0))
      (micro now) db = Inr db1"
    and st: "replaceSteps env c 4 (ID h0) (Steps h0) db1 = Inr db'" and g': "g' = Clone (h0\<lparr>UpdatedAt := now\<rparr>)"
    by (auto simp: Postgres_Update_def Let_def toPGTime_def split: option.splits sum.splits
        dest!: db_call_Inr [where r = "sql_UpdateSaga env a b s d t db" for a b s d t])
  let ?g = "g0\<lparr>Steps := steps\<rparr>" and ?h = "h0\<lparr>UpdatedAt := now\<rparr>"
  note look = pg_read [OF inv read]
  have kept: "pg_keep ?g = ?g" "ID ?g = i" using pg_lookup_kept [OF inv look(1)] by blast+
  have fr: "saga_frame ?g h0" using frame [OF fn] .
  then have h: "ID h0 = i" "CreatedAt h0 = CreatedAt ?g" "length (Steps h0) = length steps"
    using kept(2) saga_frame_length [OF fr] by (simp_all add: saga_frame_def)
  obtain n where n: "int n < 2147483648" "dense db i n" using pg_invD(4) [OF inv look(2)] by blast
  note vis = pg_lookup_steps [OF inv look(2) n(2), unfolded look(1)]
  have "length steps = n" "CreatedAt ?g = row_created_at row"
    using arg_cong [OF vis, of "\<lambda>x. length (Steps (the x))"] arg_cong [OF vis, of "\<lambda>x. CreatedAt (the x)"] by simp_all
  with h n(1) have few: "int (length (Steps ?h)) < 2147483648" and created: "CreatedAt ?h = row_created_at row"
    by simp_all
  note eff = sql_UpdateSaga_effect [OF head look(2) [folded h(1)]]
  have ok: "saga_row_ok row" using pg_invD(3) [OF inv look(2)] .
  have "pg_inv db' \<and> pg_lookup db' = (pg_lookup db)(ID ?h \<mapsto> pg_keep ?h)"
  proof (rule saga_written [OF inv _ _ _ _ few])
    show "map_of (saga_rows db1) = (map_of (saga_rows db))(ID ?h \<mapsto> row\<lparr>row_workflow := Workflow h0,
        row_status := saga_status_string (Status h0), row_context := json_context (Context h0), row_updated_at := micro now\<rparr>)"
      using eff by (simp add: map_of_update)
    show "distinct (map fst (saga_rows db1))" using eff pg_invD(1) [OF inv] by (simp add: distinct_update)
    show "step_rows db1 = step_rows db" using eff by simp
    show "holds_saga ?h (row\<lparr>row_workflow := Workflow h0, row_status := saga_status_string (Status h0),
        row_context := json_context (Context h0), row_updated_at := micro now\<rparr>)"
      using eff ok created by (simp add: holds_saga_def saga_row_ok_def)
    show "replaceSteps env c 4 (ID ?h) (Steps ?h) db1 = Inr db'" using st by simp
  qed
  then show ?thesis using look(1) fn g' h(1) by auto
qed

section \<open>Claims\<close>

text \<open>A stored step row, seen from its saga.\<close>

lemma row_in_saga:
  assumes "pg_inv db" and "map_of (step_rows db) (i, k) = Some r"
  obtains g n m where "pg_lookup db i = Some g" "dense db i n" "k = int m" "m < n" "length (Steps g) = n"
    "\<And>l. l < n \<Longrightarrow> Steps g ! l = step_of_row (the (map_of (step_rows db) (i, int l)))"
    "map_option row_status (map_of (saga_rows db) i) = Some (saga_status_string (Status g))"
proof -
  obtain row where row: "map_of (saga_rows db) i = Some row" using pg_invD(6) [OF assms] by blast
  then obtain n where n: "dense db i n" using pg_invD(4) [OF assms(1)] by blast
  have "0 \<le> k \<and> k < int n" using n assms(2) by (auto simp: dense_def)
  then have m: "k = int (nat k)" "nat k < n" by (simp_all add: nat_less_iff)
  show thesis by (rule that [OF pg_lookup_steps [OF assms(1) row n] n m]) (simp_all add: row)
qed

lemma rows_of_saga:
  assumes "pg_inv db" and "dense db i n"
  shows "list_all (\<lambda>((j, l), r). \<not> (j = i \<and> Q l r)) (step_rows db)
    \<longleftrightarrow> (\<forall>m < n. \<not> Q (int m) (the (map_of (step_rows db) (i, int m))))" (is "?L \<longleftrightarrow> ?R")
proof
  assume L: ?L
  show ?R
  proof (intro allI impI)
    fix m assume "m < n"
    then obtain r where r: "map_of (step_rows db) (i, int m) = Some r" using assms(2) by (fastforce simp: dense_def)
    from L map_of_SomeD [OF r] show "\<not> Q (int m) (the (map_of (step_rows db) (i, int m)))"
      using r by (auto simp: list_all_iff)
  qed
next
  assume R: ?R
  have "\<not> Q l r" if "((i, l), r) \<in> set (step_rows db)" for l r
  proof -
    have s: "map_of (step_rows db) (i, l) = Some r"
      using that map_of_Some_in_set_iff [OF pg_invD(2) [OF assms(1)]] by blast
    then have "0 \<le> l \<and> l < int n" using assms(2) by (auto simp: dense_def)
    then have "nat l < n" "int (nat l) = l" by (simp_all add: nat_less_iff)
    then show ?thesis using R s by (metis option.sel)
  qed
  then show ?L by (auto simp: list_all_iff)
qed

text \<open>The candidate query selects the claimable steps that are not under way or were started before the threshold.\<close>

definition claim_open :: "time \<Rightarrow> Saga \<Rightarrow> nat \<Rightarrow> bool" where
  "claim_open threshold g k \<longleftrightarrow>
     (status_at g k = (if Status g = SagaStatusCanceling then SagaStepStatusCompensating else SagaStepStatusRunning)
       \<longrightarrow> (\<exists>t. StartedAt (Steps g ! k) = Some t \<and> t \<le> threshold))"

lemma sql_candidate_iff:
  assumes inv: "pg_inv db" and r: "map_of (step_rows db) (i, int k) = Some r" and g: "pg_lookup db i = Some g"
  shows "sql_candidate db threshold ((i, int k), r) \<longleftrightarrow> claimable g k \<and> claim_open threshold g k"
proof (rule row_in_saga [OF inv r])
  fix g' n m
  assume g': "pg_lookup db i = Some g'" and n: "dense db i n" and m: "int k = int m" "m < n"
    and len: "length (Steps g') = n"
    and nth: "\<And>l. l < n \<Longrightarrow> Steps g' ! l = step_of_row (the (map_of (step_rows db) (i, int l)))"
    and head: "map_option row_status (map_of (saga_rows db) i) = Some (saga_status_string (Status g'))"
  have eq: "g' = g" using g g' by simp
  obtain row where row: "map_of (saga_rows db) i = Some row" "row_status row = saga_status_string (Status g)"
    using head eq by auto
  have st: "Status g = to_SagaStatus (row_status row)" using g row(1) by (auto simp: pg_lookup_def saga_of_row_def)
  have stat: "status_at g l = to_SagaStepStatus (srow_status (the (map_of (step_rows db) (i, int l))))" if "l < n" for l
    using nth [OF that] eq by (simp add: step_of_row_def)
  have this_stat: "status_at g k = to_SagaStepStatus (srow_status r)" "StartedAt (Steps g ! k) = srow_started_at r"
    using stat [of k] nth [of k] m eq r by (simp_all add: step_of_row_def)
  have prev: "list_all (\<lambda>((j, l), prev). \<not> (j = i \<and> l < int k \<and> srow_status prev \<noteq> ''COMPLETED'')) (step_rows db)
      \<longleftrightarrow> (\<forall>l < k. status_at g l = SagaStepStatusCompleted)"
    unfolding rows_of_saga [OF inv n, of "\<lambda>l prev. l < int k \<and> srow_status prev \<noteq> ''COMPLETED''"]
    using m stat by (auto simp: to_SagaStepStatus_eq)
  have "list_all (\<lambda>((j, l), nxt). \<not> (j = i \<and> l > int k \<and> (srow_status nxt = ''COMPLETED''
        \<or> srow_status nxt = ''RUNNING'' \<or> srow_status nxt = ''COMPENSATING''))) (step_rows db)
      \<longleftrightarrow> (\<forall>l. k < l \<and> l < n \<longrightarrow> settled (status_at g l))"
    unfolding rows_of_saga [OF inv n, of "\<lambda>l nxt. l > int k \<and> (srow_status nxt = ''COMPLETED''
        \<or> srow_status nxt = ''RUNNING'' \<or> srow_status nxt = ''COMPENSATING'')"]
    using stat by (auto simp: to_SagaStepStatus_eq settled_def)
  with prev this_stat m len eq show ?thesis
    by (auto simp: sql_candidate_def row(1) claimable_def exec_ready_def comp_ready_def claim_open_def settled_def
        started_before_def st to_SagaStatus_eq to_SagaStepStatus_eq split: option.splits)
qed

lemma step_row_written:
  assumes inv: "pg_inv db" and r: "map_of (step_rows db) (i, int k) = Some r" and ok: "step_row_ok r'"
    and g: "pg_lookup db i = Some g"
    and db': "db' = db\<lparr>step_rows := AList.update (i, int k) r' (step_rows db)\<rparr>"
  shows "pg_inv db' \<and> pg_lookup db' = (pg_lookup db)(i \<mapsto> g\<lparr>Steps := (Steps g)[k := step_of_row r']\<rparr>)"
proof (rule row_in_saga [OF inv r])
  fix g' n m
  assume g': "pg_lookup db i = Some g'" and n: "dense db i n" and m: "int k = int m" "m < n"
  have eq: "g' = g" using g g' by simp
  obtain row where row: "map_of (saga_rows db) i = Some row" using g by (auto simp: pg_lookup_def)
  have upd: "map_of (step_rows db') = (map_of (step_rows db))((i, int k) \<mapsto> r')" "saga_rows db' = saga_rows db"
    by (simp_all add: db' map_of_update)
  have "map_of (step_rows db') (j, l) \<noteq> None \<longleftrightarrow> map_of (step_rows db) (j, l) \<noteq> None" for j l
    using r unfolding upd(1) by (metis fun_upd_other fun_upd_same option.distinct(1))
  then have dense: "dense db' j l = dense db j l" for j l unfolding dense_def by (simp only:)
  have "distinct (map fst (step_rows db'))" using pg_invD(2) [OF inv] by (simp add: db' distinct_update)
  moreover have "step_row_ok x \<and> map_of (saga_rows db') j \<noteq> None" if "map_of (step_rows db') (j, l) = Some x" for j l x
    using that pg_invD(5,6) [OF inv, of j l x] ok row unfolding upd by (simp add: fun_upd_apply split: if_splits)
  moreover have "saga_row_ok x \<and> (\<exists>n. int n < 2147483648 \<and> dense db' j n)" if "map_of (saga_rows db') j = Some x" for j x
    using that pg_invD(3,4) [OF inv, of j x] unfolding upd dense by blast
  ultimately have inv': "pg_inv db'" using pg_invD(1) [OF inv] unfolding pg_inv_def upd(2) by blast
  have "pg_lookup db' j = ((pg_lookup db)(i \<mapsto> g\<lparr>Steps := (Steps g)[k := step_of_row r']\<rparr>)) j" for j
  proof (cases "j = i")
    case True
    have "map (\<lambda>l. step_of_row (the (map_of (step_rows db') (i, int l)))) [0..<n]
        = (map (\<lambda>l. step_of_row (the (map_of (step_rows db) (i, int l)))) [0..<n])[k := step_of_row r']"
      using m by (intro nth_equalityI) (auto simp: upd(1) nth_list_update)
    then show ?thesis
      using pg_lookup_steps [OF inv row n] pg_lookup_steps [OF inv' _ dense [THEN iffD2, OF n]] row upd(2) g True
      by simp
  next
    case False
    then show ?thesis using pg_lookup_cong [OF inv inv'] upd by simp
  qed
  then show ?thesis using inv' by auto
qed

text \<open>The row of a claimed step.\<close>

definition claimed_row :: "pg_env \<Rightarrow> string \<Rightarrow> step_row \<Rightarrow> step_row" where
  "claimed_row env nextStatus row = row\<lparr>srow_status := nextStatus, srow_attempt := srow_attempt row + 1,
     srow_started_at := (case srow_started_at row of None \<Rightarrow> Some (db_NOW env) | Some t \<Rightarrow> Some t),
     srow_finished_at := None, srow_error := None, srow_updated_at := db_NOW env\<rparr>"

lemma claimed_row_ok:
  assumes "step_row_ok r" and "srow_attempt r + 1 \<le> 2147483647" and "step_status_check s"
  shows "step_row_ok (claimed_row env s r)"
proof -
  have "map_option micro (srow_started_at r) = srow_started_at r"
    using assms(1) by (auto simp: step_row_ok_def keep_step_def step_of_row_def)
  then have "map_option micro (case srow_started_at r of None \<Rightarrow> Some (db_NOW env) | Some t \<Rightarrow> Some t)
      = (case srow_started_at r of None \<Rightarrow> Some (db_NOW env) | Some t \<Rightarrow> Some t)"
    by (cases "srow_started_at r") (simp_all add: db_NOW_def)
  moreover have "toString (toNullableText (toString None)) = toString None"
    by (simp add: toString_def toNullableText_def)
  ultimately show ?thesis
    using assms by (simp add: step_row_ok_def claimed_row_def keep_step_def step_of_row_def)
qed

lemma sql_claim_found:
  assumes "sql_ClaimNextStep env threshold db = Inr ((i, k, name, attempt), db')" and "pg_inv db"
  obtains r where "map_of (step_rows db) (i, k) = Some r" "sql_candidate db threshold ((i, k), r)"
    "\<not> lockedRow env (srow_id r)" "srow_attempt r + 1 \<le> 2147483647" "name = srow_name r" "attempt = srow_attempt r + 1"
    "db' = db\<lparr>step_rows := AList.update (i, k) (claimed_row env
       (if map_option row_status (map_of (saga_rows db) i) = Some ''CANCELING'' then ''COMPENSATING'' else ''RUNNING'') r)
       (step_rows db)\<rparr>"
    "\<forall>p \<in> set (step_rows db). sql_candidate db threshold p \<and> \<not> lockedRow env (srow_id (snd p))
       \<longrightarrow> (srow_updated_at r, srow_id r) \<le> (srow_updated_at (snd p), srow_id (snd p))"
proof -
  let ?key = "\<lambda>(key, row). (srow_updated_at row, srow_id row)"
  let ?xs = "filter (\<lambda>p. sql_candidate db threshold p \<and> \<not> lockedRow env (srow_id (snd p))) (step_rows db)"
  from assms(1) obtain r rest where sorted: "sort_key ?key ?xs = ((i, k), r) # rest"
    and ok: "srow_attempt r + 1 \<le> 2147483647" "name = srow_name r" "attempt = srow_attempt r + 1"
    and db': "db' = db\<lparr>step_rows := AList.update (i, k) (claimed_row env
       (if map_option row_status (map_of (saga_rows db) i) = Some ''CANCELING'' then ''COMPENSATING'' else ''RUNNING'') r)
       (step_rows db)\<rparr>"
    by (auto simp: sql_ClaimNextStep_def Let_def claimed_row_def split: list.splits if_splits prod.splits)
  have set: "set (sort_key ?key ?xs) = set ?xs" by (rule set_sort)
  then have "((i, k), r) \<in> set ?xs" by (metis sorted list.set_intros(1))
  then have r: "map_of (step_rows db) (i, k) = Some r" "sql_candidate db threshold ((i, k), r)" "\<not> lockedRow env (srow_id r)"
    using map_of_Some_in_set_iff [OF pg_invD(2) [OF assms(2)]] by auto
  have "?key ((i, k), r) \<le> ?key p" if "p \<in> set ?xs" for p
  proof -
    have "sorted (map ?key (((i, k), r) # rest))" using sorted_sort_key [of ?key ?xs] by (simp only: sorted)
    moreover have "p \<in> set (((i, k), r) # rest)" using that set sorted by (metis (no_types, lifting))
    ultimately show ?thesis by auto
  qed
  then show thesis using that [OF r ok db'] by fastforce
qed

text \<open>A claim clears the results of the step, and keeps the instant of its first start.\<close>

lemma pg_claim_saga:
  assumes inv: "pg_inv db" and cl: "Postgres_ClaimNextStep env c now stale db = (Inr (Some d), db')"
  shows "pg_inv db' \<and> (\<exists>g g'. pg_lookup db (claimed_SagaID d) = Some g \<and> claim_effect d g g'
    \<and> pg_lookup db' = (pg_lookup db)(claimed_SagaID d \<mapsto> g')
    \<and> StartedAt (Steps g' ! nat (claimed_StepIndex d)) =
        (case StartedAt (Steps g ! nat (claimed_StepIndex d)) of None \<Rightarrow> Some (db_NOW env) | Some t \<Rightarrow> Some t))"
proof -
  from cl obtain i k name attempt where q: "sql_ClaimNextStep env (micro (now - stale)) db = Inr ((i, k, name, attempt), db')"
    and d: "d = \<lparr>claimed_SagaID = i, claimed_StepIndex = k, claimed_Name = name, claimed_Attempt = word_of_int attempt\<rparr>"
    by (auto simp: Postgres_ClaimNextStep_def Let_def toPGTime_def split: sum.splits if_splits prod.splits dest!: db_call_Inr)
  from sql_claim_found [OF q inv] obtain r where r: "map_of (step_rows db) (i, k) = Some r"
    "sql_candidate db (micro (now - stale)) ((i, k), r)" "srow_attempt r + 1 \<le> 2147483647"
    "name = srow_name r" "attempt = srow_attempt r + 1"
    "db' = db\<lparr>step_rows := AList.update (i, k) (claimed_row env
       (if map_option row_status (map_of (saga_rows db) i) = Some ''CANCELING'' then ''COMPENSATING'' else ''RUNNING'') r)
       (step_rows db)\<rparr>" by metis
  show ?thesis
  proof (rule row_in_saga [OF inv r(1)])
    fix g n m
    assume g: "pg_lookup db i = Some g" and m: "k = int m" "m < n" "length (Steps g) = n"
      and nth: "\<And>l. l < n \<Longrightarrow> Steps g ! l = step_of_row (the (map_of (step_rows db) (i, int l)))"
      and head: "map_option row_status (map_of (saga_rows db) i) = Some (saga_status_string (Status g))"
    let ?s = "if map_option row_status (map_of (saga_rows db) i) = Some ''CANCELING'' then ''COMPENSATING'' else ''RUNNING''"
    have status: "to_SagaStepStatus ?s = claim_status g"
      using g by (auto simp: claim_status_def to_SagaStepStatus_def pg_lookup_def saga_of_row_def to_SagaStatus_eq)
    have "step_status_check ?s" by (simp add: step_status_check_def)
    then have ok: "step_row_ok (claimed_row env ?s r)"
      using claimed_row_ok pg_invD(5) [OF inv r(1)] r(3) by blast
    note eff = step_row_written [OF inv r(1) [unfolded m(1)] ok g r(6) [unfolded m(1)]]
    have claimable: "claimable g m" using sql_candidate_iff [OF inv r(1) [unfolded m(1)] g] r(2) m(1) by blast
    have old: "Steps g ! m = step_of_row r" using nth [OF m(2)] r(1) m(1) by simp
    obtain t where t: "StartedAt (step_of_row (claimed_row env ?s r)) = Some t"
      by (cases "srow_started_at r") (simp_all add: step_of_row_def claimed_row_def)
    have "step_of_row (claimed_row env ?s r) = (Steps g ! m)\<lparr>step_Status := claim_status g,
        Attempt := Attempt (Steps g ! m) + 1, StartedAt := Some t, FinishedAt := None, step_Error := ''''\<rparr>"
      using t status unfolding old by (simp add: step_of_row_def claimed_row_def toString_def)
    then have ce: "claim_effect d g (g\<lparr>Steps := (Steps g)[m := step_of_row (claimed_row env ?s r)]\<rparr>)"
      unfolding claim_effect_def using claimable pg_lookup_kept(2) [OF inv g] old r(4,5) m(1) d
      by (intro exI [of _ m] exI [of _ t] exI [of _ "UpdatedAt g"]) (simp add: step_of_row_def)
    have start: "StartedAt (Steps (g\<lparr>Steps := (Steps g)[m := step_of_row (claimed_row env ?s r)]\<rparr>) ! nat (claimed_StepIndex d)) =
        (case StartedAt (Steps g ! nat (claimed_StepIndex d)) of None \<Rightarrow> Some (db_NOW env) | Some t \<Rightarrow> Some t)"
      using m by (simp add: d old, simp add: step_of_row_def claimed_row_def)
    have "claimed_SagaID d = i" by (simp add: d)
    then show ?thesis using eff g ce start by metis
  qed
qed

lemma pg_claim_found:
  assumes "pg_inv db" and "Postgres_ClaimNextStep env c now stale db = (Inr (Some d), db')"
  shows "pg_inv db' \<and> (\<exists>g g'. pg_lookup db (claimed_SagaID d) = Some g \<and> claim_effect d g g'
    \<and> pg_lookup db' = (pg_lookup db)(claimed_SagaID d \<mapsto> g'))"
  using pg_claim_saga [OF assms] by blast

lemma pg_claim_other:
  assumes "Postgres_ClaimNextStep env c now stale db = (x, db')" and "\<forall>d. x \<noteq> Inr (Some d)"
  shows "db' = db"
  using assms by (auto simp: Postgres_ClaimNextStep_def Let_def split: sum.splits if_splits prod.splits)

section \<open>The store\<close>

lemma postgres_store_simps [simp]:
  "store_Create (postgres_store env) = Postgres_Create env" "store_Get (postgres_store env) = Postgres_Get env"
  "store_List (postgres_store env) = Postgres_List env" "store_Update (postgres_store env) = Postgres_Update env"
  "store_ClaimNextStep (postgres_store env) = Postgres_ClaimNextStep env"
  by (simp_all add: postgres_store_def)

lemma pg_create_exists:
  assumes "Postgres_Create env c g db = (Some e, db')" and "errors_Is e (StoreErr ErrAlreadyExists)"
  shows "pg_lookup db (ID g) \<noteq> None"
proof -
  have steps: "\<not> errors_Is e' (StoreErr x)" if "replaceSteps_loop env c n i m st d = Inl e'" for n i m st d x e'
    using that
    by (induction env c n i m st d rule: replaceSteps_loop.induct)
       (auto simp: db_call_def sql_UpsertSagaStep_def serverError_def Let_def split: sum.splits option.splits if_splits)
  have "\<not> errors_Is e' (StoreErr x)" if "replaceSteps env c n i st d = Inl e'" for n i st d x e'
    using that steps by (auto simp: replaceSteps_def split: sum.splits dest: db_call_not_sentinel)
  then have "\<exists>e' row. db_call env c 1 (sql_CreateSaga env (ID g) row db) = Inl e' \<and> isUniqueViolation e'"
    using assms by (auto simp: Postgres_Create_def split: option.splits sum.splits if_splits dest: db_call_not_sentinel)
       (auto simp: db_call_def sql_CreateSaga_def serverError_def split: option.splits if_splits)
  then show ?thesis
    by (auto simp: db_call_def isUniqueViolation_def sql_CreateSaga_def serverError_def pg_lookup_def
        split: option.splits if_splits)
qed

lemma pg_keep_frame:
  assumes "pg_keep g = g" and "saga_frame g h"
  shows "saga_frame g (pg_keep h)"
proof -
  have "json_context (Context g) = Context g" "micro (CreatedAt g) = CreatedAt g"
    using arg_cong [OF assms(1), of Context] arg_cong [OF assms(1), of CreatedAt] by (simp_all add: pg_keep_def)
  then show ?thesis using assms(2) by (simp add: saga_frame_def pg_keep_def comp_def keep_step_def)
qed

lemma pg_keep_heads:
  "ID (pg_keep g) = ID g" "Workflow (pg_keep g) = Workflow g"
  "declared_status (Status g) \<Longrightarrow> Status (pg_keep g) = Status g"
  by (simp_all add: pg_keep_def to_SagaStatus_string)

lemma pg_unchanged:
  "pg_inv s \<Longrightarrow> Postgres_Create env c g s = (Some e, s') \<Longrightarrow> pg_inv s' \<and> pg_lookup s' = pg_lookup s"
  "pg_inv s \<Longrightarrow> Postgres_Update env c now i fn s = (Inl e, s') \<Longrightarrow> pg_inv s' \<and> pg_lookup s' = pg_lookup s"
  "pg_inv s \<Longrightarrow> Postgres_ClaimNextStep env c now stale s = (Inr None, s') \<Longrightarrow> pg_inv s' \<and> pg_lookup s' = pg_lookup s"
  "pg_inv s \<Longrightarrow> Postgres_ClaimNextStep env c now stale s = (Inl e, s') \<Longrightarrow> pg_inv s' \<and> pg_lookup s' = pg_lookup s"
  by (drule pg_create_error pg_update_error pg_claim_other, simp_all)+

lemma pg_fits_few: "int (length (Steps g)) < 2147483648 \<Longrightarrow> pg_fits g"
  by (simp add: pg_fits_def)

interpretation pg: saga_store "postgres_store env" pg_lookup pg_inv pg_keep pg_fits for env
proof
  show "saga_frame g (pg_keep h)" if "pg_keep g = g" "saga_frame g h" for g h using that by (rule pg_keep_frame)
  show "map step_Status (Steps (pg_keep g)) = map step_Status (Steps g)"
    if "\<And>x. x \<in> set (map step_Status (Steps g)) \<Longrightarrow> declared_step_status x" for g
    using that by (auto simp: pg_keep_def keep_step_def to_SagaStepStatus_string)
  show "steps_started (pg_keep g)"
    if "\<And>x. x \<in> set (map step_Status (Steps g)) \<Longrightarrow> declared_step_status x" "steps_started g" for g
    using that by (auto simp: steps_started_def pg_keep_def keep_step_def to_SagaStepStatus_string)
next
  fix s s' :: pg_db and c now i fn g'
  assume "pg_inv s" "store_Update (postgres_store env) c now i fn s = (Inr g', s')"
    "\<And>g h. fn g = Inr h \<Longrightarrow> saga_frame g h"
  then show "pg_inv s' \<and> (\<exists>g h. pg_lookup s i = Some g \<and> fn g = Inr h \<and> g' = Clone (h\<lparr>UpdatedAt := now\<rparr>)
      \<and> pg_lookup s' = (pg_lookup s)(i \<mapsto> pg_keep (h\<lparr>UpdatedAt := now\<rparr>)))"
    unfolding postgres_store_simps by (rule pg_update_ok)
qed (unfold postgres_store_simps, (rule pg_lookup_kept pg_keep_heads pg_create_ok pg_create_exists pg_get_ok
    pg_get_missing pg_claim_found pg_unchanged pg_fits_few; assumption)+)

end
