(* ===== verification/Liveness.thy ===== *)
theory Liveness
  imports System
begin

text \<open>
  Progress. A saga that is not settled always has one step to be claimed; a round of the
  runner (a claim, its dispatch and the recording of the result) strictly decreases the work a
  saga has left; so a bounded number of rounds settles every saga, whatever the dispatcher
  answers, and if it never fails every saga ends COMPLETED or COMPENSATED. The lemmas are proved
  for every store that keeps the steps it is given exactly.
\<close>

section \<open>There is always a step to claim\<close>

definition active :: "SagaStatus \<Rightarrow> bool" where
  "active st \<longleftrightarrow> st = SagaStatusCreated \<or> st = SagaStatusRunning \<or> st = SagaStatusCanceling"

text \<open>Whoever was working on a step has had the stale timeout to finish it.\<close>

definition idle :: "duration \<Rightarrow> time \<Rightarrow> Saga \<Rightarrow> bool" where
  "idle stale now g \<longleftrightarrow> (\<forall>st \<in> set (Steps g).
     step_Status st = SagaStepStatusRunning \<or> step_Status st = SagaStepStatusCompensating \<longrightarrow> overdue stale now st)"

lemma exec_shape_ready: "exec_shape k (map step_Status (Steps g)) \<Longrightarrow> exec_ready g k"
  by (auto simp: exec_shape_def exec_ready_def)

lemma active_claimable:
  assumes "saga_ok g" and "active (Status g)"
  shows "\<exists>k. claimable g k"
proof (cases "Status g = SagaStatusCanceling")
  case True
  then have "\<exists>st \<in> set (Steps g). \<not> settled (step_Status st)"
    using assms(1) by (auto simp: saga_ok_def)
  then show ?thesis using comp_ready_ex True by (auto simp: claimable_def)
next
  case False
  then have st: "Status g = SagaStatusCreated \<or> Status g = SagaStatusRunning"
    using assms(2) by (simp add: active_def)
  then obtain k where "exec_shape k (map step_Status (Steps g))" using assms(1) by (auto simp: saga_ok_def)
  then show ?thesis using st exec_shape_ready by (auto simp: claimable_def)
qed

lemma active_due:
  assumes "saga_ok g" and "active (Status g)" and "idle stale now g"
  shows "\<exists>k. due stale now g k"
proof -
  obtain k where k: "claimable g k" using active_claimable assms(1,2) by blast
  then have "k < length (Steps g)" by (auto simp: claimable_def exec_ready_def comp_ready_def)
  then have "Steps g ! k \<in> set (Steps g)" by simp
  then have "due stale now g k"
    using k assms(3) by (auto simp: due_def claimable_def exec_ready_def comp_ready_def idle_def settled_def)
  then show ?thesis ..
qed

lemma due_active: "due stale now g k \<Longrightarrow> active (Status g)"
  by (auto simp: due_def claimable_def active_def)

section \<open>The work left in a saga\<close>

definition work :: "Saga \<Rightarrow> nat" where
  "work g =
     (if Status g = SagaStatusCanceling then length (filter (\<lambda>x. \<not> settled x) (map step_Status (Steps g)))
      else if active (Status g) then length (filter (\<lambda>x. x \<noteq> SagaStepStatusCompleted) (map step_Status (Steps g)))
      else 0)"

lemma filter_update_less:
  assumes "k < length xs" and "P (xs ! k)" and "\<not> P y"
  shows "length (filter P (xs[k := y])) < length (filter P xs)"
proof -
  have "filter P (xs[k := y]) = filter P (take k xs) @ filter P (drop (Suc k) xs)"
    using assms(1,3) by (simp add: upd_conv_take_nth_drop)
  moreover have "filter P xs = filter P (take k xs) @ xs ! k # filter P (drop (Suc k) xs)"
    using assms(1,2) by (subst id_take_nth_drop [of k xs]) auto
  ultimately show ?thesis by simp
qed

lemma work_pos: "claimable g k \<Longrightarrow> 0 < work g"
  using nth_mem [of k "Steps g"]
  by (auto simp: work_def active_def claimable_def exec_ready_def comp_ready_def filter_empty_conv
      intro: bexI [of _ "Steps g ! k"])

text \<open>
  A step that has just been claimed gets its result: what becomes of the saga. \<open>ok\<close> says
  whether the dispatch succeeded.
\<close>

definition served :: "bool \<Rightarrow> nat \<Rightarrow> Saga \<Rightarrow> Saga \<Rightarrow> bool" where
  "served ok k g h \<longleftrightarrow> work h < work g
     \<and> (\<exists>st. Steps h = (Steps g)[k := st]
          \<and> step_Status st \<noteq> SagaStepStatusRunning \<and> step_Status st \<noteq> SagaStepStatusCompensating)
     \<and> (if \<not> ok then Status h = SagaStatusFailed
        else if Status g = SagaStatusCanceling
        then Status h = SagaStatusCanceling \<or> Status h = SagaStatusCompensated
        else Status h = SagaStatusRunning \<or> Status h = SagaStatusCompleted)"

lemma served_exec:
  assumes "claimable g k" and "Status g \<noteq> SagaStatusCanceling" and "saga_ok g'"
    and g': "Status g' = Status g" "Steps g' = (Steps g)[k := st]" "step_Status st = SagaStepStatusRunning"
  shows "served (err = None) k g (applyClaimedStepDispatchResult now g' k err)"
proof -
  have st: "Status g = SagaStatusCreated \<or> Status g = SagaStatusRunning" and k: "k < length (Steps g)"
    and nk: "map step_Status (Steps g) ! k \<noteq> SagaStepStatusCompleted"
    using assms(1,2) by (auto simp: claimable_def exec_ready_def)
  have gk: "status_at g' k = SagaStepStatusRunning" using g' k by simp
  obtain l where l: "exec_shape l (map step_Status (Steps g'))"
    using assms(3) st g'(1) by (auto simp: saga_ok_def)
  have "l = k" using running_step_exec [OF l, of k] gk k g'(2) by simp
  show ?thesis
  proof (cases err)
    case (Some e)
    then have "applyClaimedStepDispatchResult now g' k err
        = (writeStep g' k SagaStepStatusFailed now (error_text e))\<lparr>Status := SagaStatusFailed\<rparr>"
      unfolding Some using st g'(1) by (intro dispatch_result_error) auto
    then show ?thesis using Some work_pos [OF assms(1)] g'(2)
      by (auto simp: served_def work_def active_def writeStep_def)
  next
    case None
    let ?h = "applyClaimedStepDispatchResult now g' k None"
    let ?x = "if Suc k < length (Steps g') then SagaStatusRunning else SagaStatusCompleted"
    have h: "?h = (writeStep g' k SagaStepStatusCompleted now '''')\<lparr>Status := ?x\<rparr>"
      using dispatch_result_success [of g' k] st g'(1) l \<open>l = k\<close> by simp
    have "map step_Status (Steps ?h) = (map step_Status (Steps g))[k := SagaStepStatusCompleted]"
      unfolding h by (simp add: writeStep_def g'(2) map_update)
    then have "work ?h < work g"
      using filter_update_less [of k "map step_Status (Steps g)" "\<lambda>x. x \<noteq> SagaStepStatusCompleted" SagaStepStatusCompleted]
        k nk st work_pos [OF assms(1)] h
      by (auto simp: work_def active_def)
    then show ?thesis using None st h g'(2) by (auto simp: served_def writeStep_def)
  qed
qed

lemma served_comp:
  assumes "claimable g k" and "Status g = SagaStatusCanceling" and "saga_ok g'"
    and g': "Status g' = Status g" "Steps g' = (Steps g)[k := st]"
  shows "served (err = None) k g (applyClaimedStepCompensationResult now g' k err)"
proof -
  have k: "k < length (Steps g)" and nk: "\<not> settled (map step_Status (Steps g) ! k)"
    using assms(1,2) by (auto simp: claimable_def comp_ready_def)
  show ?thesis
  proof (cases err)
    case (Some e)
    then have "applyClaimedStepCompensationResult now g' k err
        = (writeStep g' k SagaStepStatusFailed now (error_text e))\<lparr>Status := SagaStatusFailed\<rparr>"
      using compensation_result_error [of g'] assms(2) g'(1) by simp
    then show ?thesis using Some work_pos [OF assms(1)] g'(2)
      by (auto simp: served_def work_def active_def writeStep_def)
  next
    case None
    let ?h = "applyClaimedStepCompensationResult now g' k None"
    let ?x = "if \<exists>x \<in> set ((map step_Status (Steps g'))[k := SagaStepStatusCompensated]). \<not> settled x
      then SagaStatusCanceling else SagaStatusCompensated"
    have h: "?h = (writeStep g' k SagaStepStatusCompensated now '''')\<lparr>Status := ?x\<rparr>"
      using assms(2,3) g' k by (intro compensation_result_success) auto
    have x: "?x = SagaStatusCanceling \<or> ?x = SagaStatusCompensated" by simp
    have "map step_Status (Steps ?h) = (map step_Status (Steps g))[k := SagaStepStatusCompensated]"
      unfolding h by (simp add: writeStep_def g'(2) map_update)
    then have "work ?h < work g"
      using filter_update_less [of k "map step_Status (Steps g)" "\<lambda>x. \<not> settled x" SagaStepStatusCompensated]
        k nk x work_pos [OF assms(1)] h assms(2)
      by (auto simp: work_def active_def settled_def)
    then show ?thesis using None x h g'(2) assms(2) by (auto simp: served_def writeStep_def)
  qed
qed

lemma served_idle: "served ok k g h \<Longrightarrow> idle stale now g \<Longrightarrow> idle stale now h"
  by (auto simp: served_def idle_def dest!: set_update_subset_insert [THEN subsetD])

section \<open>One round of the runner\<close>

text \<open>
  The claim of \<^verbatim>\<open>Run\<close>, if it finds a step, handed to a worker that takes the lock and processes
  it to the end before the next round.
\<close>

definition serveStep ::
  "'s stepQueueStore \<Rightarrow> (Saga \<Rightarrow> SagaStep \<Rightarrow> error option) \<Rightarrow> duration \<Rightarrow> time \<Rightarrow> 's \<Rightarrow> 's" where
  "serveStep ops dispatch stale now s =
     (case store_ClaimNextStep ops live now stale s of
        (Inr (Some d), s') \<Rightarrow> snd (processClaimedStepLocked ops dispatch live live now now d s')
      | (Inr None, s') \<Rightarrow> s'
      | (Inl err, s') \<Rightarrow> s')"

fun serveSteps ::
  "'s stepQueueStore \<Rightarrow> (Saga \<Rightarrow> SagaStep \<Rightarrow> error option) \<Rightarrow> duration \<Rightarrow> time list \<Rightarrow> 's \<Rightarrow> 's" where
  "serveSteps ops dispatch stale [] s = s"
| "serveSteps ops dispatch stale (now # ts) s =
     serveSteps ops dispatch stale ts (serveStep ops dispatch stale now s)"

text \<open>How the status of a saga may end up when no dispatch fails.\<close>

definition healthy :: "SagaStatus \<Rightarrow> SagaStatus \<Rightarrow> bool" where
  "healthy x y \<longleftrightarrow>
     (if x = SagaStatusCreated \<or> x = SagaStatusRunning
      then y = SagaStatusCreated \<or> y = SagaStatusRunning \<or> y = SagaStatusCompleted
      else if x = SagaStatusCanceling then y = SagaStatusCanceling \<or> y = SagaStatusCompensated
      else y = x)"

lemma healthy_refl [simp]: "healthy x x"
  by (simp add: healthy_def)

lemma healthy_trans: "healthy x y \<Longrightarrow> healthy y z \<Longrightarrow> healthy x z"
  by (auto simp: healthy_def split: if_splits)

lemma served_healthy: "served True k g h \<Longrightarrow> active (Status g) \<Longrightarrow> healthy (Status g) (Status h)"
  by (auto simp: served_def healthy_def active_def split: if_splits)

lemma healthy_end:
  "healthy x y \<Longrightarrow> \<not> active y \<Longrightarrow>
   y = (if x = SagaStatusCreated \<or> x = SagaStatusRunning then SagaStatusCompleted
        else if x = SagaStatusCanceling then SagaStatusCompensated else x)"
  by (auto simp: healthy_def active_def split: if_splits)

text \<open>The work left in all sagas of a store.\<close>

definition total_work :: "(string \<Rightarrow> Saga option) \<Rightarrow> nat" where
  "total_work m = (\<Sum>i \<in> dom m. work (the (m i)))"

lemma total_work_update:
  assumes "finite (dom m)" and "m i = Some g" and "work h < work g"
  shows "total_work (m(i \<mapsto> h)) < total_work m"
proof -
  have "dom (m(i \<mapsto> h)) = dom m" using assms(2) by auto
  then show ?thesis unfolding total_work_def
    using assms by (simp only:) (rule sum_strict_mono_ex1, auto)
qed

lemma total_work_zero: "finite (dom m) \<Longrightarrow> total_work m = 0 \<Longrightarrow> m i = Some g \<Longrightarrow> work g = 0"
  by (fastforce simp: total_work_def dom_def)

lemma active_work: "saga_ok g \<Longrightarrow> active (Status g) \<Longrightarrow> 0 < work g"
  using active_claimable work_pos by blast

lemma inactive_work: "\<not> active (Status g) \<Longrightarrow> work g = 0"
  by (simp add: work_def active_def)

text \<open>A live store that keeps the steps of a saga exactly as it is given them.\<close>

locale exact_store = live_store +
  assumes keep_exact: "Steps (keep g) = Steps g"
begin

lemma load_claimed:
  assumes "inv s" and "lookup s (claimed_SagaID d) = Some g" and "claimed_StepIndex d = int k"
    and "k < length (Steps g)" and "active (Status g)"
    and "status_at g k = claim_status g"
  shows "\<exists>st. loadClaimedStepForDispatch ops live d s = Inr (Some (g, st))"
proof -
  have "store_Get ops live (claimed_SagaID d) s = Inr g" using assms(1,2) by (rule get_live)
  moreover have "validateClaimedStepIndex d (length (Steps g)) = None" using assms(3,4) by simp
  ultimately show ?thesis using assms(3,5,6)
    by (auto simp: loadClaimedStepForDispatch_def resolveClaimedStepDispatchMode_def claim_status_def
        active_def Let_def simp del: validateClaimedStepIndex_None)
qed

lemma serveStep_nothing:
  assumes "inv s" and "\<And>i g k. lookup s i = Some g \<Longrightarrow> \<not> due stale now g k"
  shows "inv (serveStep ops dispatch stale now s) \<and> lookup (serveStep ops dispatch stale now s) = lookup s"
proof -
  obtain r s' where r: "store_ClaimNextStep ops live now stale s = (r, s')"
    by (cases "store_ClaimNextStep ops live now stale s")
  have "r \<noteq> Inr (Some d)" for d using claim_live_due [OF assms(1)] r assms(2) by blast
  then show ?thesis
    using claim_none [OF assms(1)] claim_error [OF assms(1)] r
    by (cases r; cases "projr r") (auto simp: serveStep_def)
qed

lemma served_keep: "served ok k g h \<Longrightarrow> served ok k g (keep (h\<lparr>UpdatedAt := t\<rparr>))"
proof -
  assume s: "served ok k g h"
  then have "declared_status (Status (h\<lparr>UpdatedAt := t\<rparr>))" by (auto simp: served_def split: if_splits)
  then have st: "Status (keep (h\<lparr>UpdatedAt := t\<rparr>)) = Status h" by (simp add: keep_Status)
  then have "work (keep (h\<lparr>UpdatedAt := t\<rparr>)) = work h" by (simp add: work_def keep_exact)
  then show ?thesis using s st by (simp add: served_def keep_exact)
qed

lemma serveStep_serves:
  assumes "inv s" and good: "\<And>i g. lookup s i = Some g \<Longrightarrow> saga_good g"
    and "lookup s i0 = Some g0" and "due stale now g0 k0"
  obtains i g h k ok where "inv (serveStep ops dispatch stale now s)" "lookup s i = Some g"
    "lookup (serveStep ops dispatch stale now s) = (lookup s)(i \<mapsto> h)" "saga_good h" "served ok k g h"
    "(\<forall>g st. dispatch g st = None) \<longrightarrow> ok"
proof -
  obtain d s1 where cl: "store_ClaimNextStep ops live now stale s = (Inr (Some d), s1)"
    using claim_live [OF assms(1,3,4)] by blast
  from claim_found [OF assms(1) cl] obtain g g' where g: "inv s1" "lookup s (claimed_SagaID d) = Some g"
    "claim_effect d g g'" "lookup s1 = (lookup s)(claimed_SagaID d \<mapsto> g')" by blast
  from g(3) obtain k t u where k: "claimed_StepIndex d = int k" "claimable g k"
    and g': "Status g' = Status g" "Steps g' = (Steps g)[k := (Steps g ! k)\<lparr>step_Status := claim_status g,
          Attempt := Attempt (Steps g ! k) + 1, StartedAt := Some t, FinishedAt := None, step_Error := ''''\<rparr>]"
    by (auto simp: claim_effect_def)
  have kb: "k < length (Steps g')" using k(2) g'(2) by (auto simp: claimable_def exec_ready_def comp_ready_def)
  have act: "active (Status g')" using k(2) g'(1) by (auto simp: claimable_def active_def)
  have gk: "status_at g' k = claim_status g'" using kb g' by (simp add: claim_status_def)
  have good': "saga_good g'" using claim_effect_good [OF g(3) good [OF g(2)]] .
  have l1: "lookup s1 (claimed_SagaID d) = Some g'" using g(4) by simp
  obtain st where ld: "loadClaimedStepForDispatch ops live d s1 = Inr (Some (g', st))"
    using load_claimed [OF g(1) l1 k(1) kb act gk] by blast
  let ?err = "dispatch g' st"
  let ?h = "phase_result now g' k ?err"
  have "if Status g' = SagaStatusCanceling then \<not> settled (status_at g' k)
      else status_at g' k = SagaStepStatusPending \<or> status_at g' k = SagaStepStatusRunning"
    by (simp add: gk claim_status_def settled_def)
  from record_result [OF g(1) l1 k(1) kb this] obtain s2
    where up: "updateClaimedStepAfterDispatch ops live now now d ?err s1 = (None, s2)"
      and rec: "inv s2" "lookup s2 = (lookup s1)(claimed_SagaID d \<mapsto> keep (?h\<lparr>UpdatedAt := now\<rparr>))" by blast
  have s2: "serveStep ops dispatch stale now s = s2"
    using cl ld up by (auto simp: serveStep_def processClaimedStepLocked_def Let_def split: option.splits)
  have "served (?err = None) k g ?h"
    using served_exec [OF k(2) _ saga_good_ok [OF good'] g'] served_comp [OF k(2) _ saga_good_ok [OF good'] g']
      g'(1) by (auto simp: claim_status_def phase_result_def)
  then have "served (?err = None) k g (keep (?h\<lparr>UpdatedAt := now\<rparr>))"
    by (rule served_keep)
  moreover have "saga_good (keep (?h\<lparr>UpdatedAt := now\<rparr>))"
  proof -
    have good1: "saga_good x" if "lookup s1 j = Some x" for j x
      using that good good' g(4) by (auto split: if_splits)
    have cv: "claim_valid lookup s1 d" by (rule claimed_step(4) [OF assms(1) good cl])
    have "lookup s2 (claimed_SagaID d) = Some (keep (?h\<lparr>UpdatedAt := now\<rparr>))" using rec(2) by simp
    then show ?thesis using finish_step(3) [OF g(1) _ cv up] good1 by blast
  qed
  ultimately show thesis
    using rec g(2,4) unfolding s2 [symmetric] by (intro that) auto
qed

text \<open>Enough rounds settle every saga.\<close>

lemma serveSteps_settle:
  assumes "inv s" and "\<And>i g. lookup s i = Some g \<Longrightarrow> saga_good g" and "finite (dom (lookup s))"
    and "\<And>t i g. t \<in> set ts \<Longrightarrow> lookup s i = Some g \<Longrightarrow> idle stale t g"
    and "total_work (lookup s) \<le> length ts" and "lookup s i = Some g"
  shows "\<exists>h. lookup (serveSteps ops dispatch stale ts s) i = Some h \<and> \<not> active (Status h) \<and> saga_good h
    \<and> ((\<forall>g st. dispatch g st = None) \<longrightarrow> healthy (Status g) (Status h))"
  using assms
proof (induction ts arbitrary: s g)
  case Nil
  then have "work g = 0" using total_work_zero by simp
  moreover have "saga_good g" using Nil(2,6) by blast
  moreover from this have "\<not> active (Status g)" using active_work [OF saga_good_ok, of g] \<open>work g = 0\<close> by auto
  ultimately show ?case using Nil(6) by auto
next
  case (Cons t ts)
  let ?s = "serveStep ops dispatch stale t s"
  show ?case
  proof (cases "\<exists>j x. lookup s j = Some x \<and> active (Status x)")
    case False
    then have "total_work (lookup s) = 0"
      unfolding total_work_def by (intro sum.neutral ballI) (auto simp: dom_def inactive_work)
    moreover have "inv ?s \<and> lookup ?s = lookup s"
      using False due_active by (intro serveStep_nothing [OF Cons.prems(1)]) blast
    ultimately show ?thesis
      using Cons.IH [of ?s g] Cons.prems by auto
  next
    case True
    then obtain j x where x: "lookup s j = Some x" "active (Status x)" by blast
    have "idle stale t x" using Cons.prems(4) x(1) by simp
    then obtain k0 where due: "due stale t x k0"
      using active_due [OF saga_good_ok [OF Cons.prems(2) [OF x(1)]] x(2)] by blast
    obtain l y h k ok where
      l: "inv ?s" "lookup s l = Some y" "lookup ?s = (lookup s)(l \<mapsto> h)" "saga_good h" "served ok k y h"
      "(\<forall>g st. dispatch g st = None) \<longrightarrow> ok"
    proof (rule serveStep_serves [OF Cons.prems(1) _ x(1) due, where dispatch = dispatch])
      show "saga_good b" if "lookup s a = Some b" for a b using that by (rule Cons.prems(2))
    qed (rule that)
    have less: "total_work (lookup ?s) < total_work (lookup s)"
      unfolding l(3) using l(5) by (intro total_work_update [OF Cons.prems(3) l(2)]) (simp add: served_def)
    obtain g' where g': "lookup ?s i = Some g'"
      "(\<forall>g st. dispatch g st = None) \<longrightarrow> healthy (Status g) (Status g')"
    proof (cases "i = l")
      case True
      have "active (Status y)"
        using l(5) inactive_work by (fastforce simp: served_def)
      then show thesis using that [of h] True l Cons.prems(6) served_healthy [of k y h] by auto
    next
      case False
      then show thesis using that [of g] l(3) Cons.prems(6) by simp
    qed
    have "\<exists>h. lookup (serveSteps ops dispatch stale ts ?s) i = Some h \<and> \<not> active (Status h) \<and> saga_good h
      \<and> ((\<forall>g st. dispatch g st = None) \<longrightarrow> healthy (Status g') (Status h))"
    proof (rule Cons.IH [OF l(1) _ _ _ _ g'(1)])
      show "saga_good a" if "lookup ?s b = Some a" for a b
        using that Cons.prems(2) l(3,4) by (auto split: if_splits)
      show "finite (dom (lookup ?s))" using Cons.prems(3) l(3) by simp
      show "idle stale u a" if "u \<in> set ts" "lookup ?s b = Some a" for u a b
        using that Cons.prems(4) l(2,3) served_idle [OF l(5)] by (auto split: if_splits)
      show "total_work (lookup ?s) \<le> length ts" using less Cons.prems(5) by simp
    qed
    then show ?thesis using g'(2) healthy_trans by (metis serveSteps.simps(2))
  qed
qed

end

interpretation memory_exact: exact_store memory_store memory_lookup memory_inv Clone "\<lambda>_. True"
  by unfold_locales simp

end
