(* ===== verification/Scenario.thy ===== *)
theory Scenario
  imports Liveness
begin

text \<open>
  Concrete runs of the transition system, for the properties that need an example: an
  executable interpreter of event lists that is sound for the step relation, and the runs of
  one saga with two steps over the in-memory store.
\<close>

datatype event =
    Start "byte list" time "StartSagaStep list"
  | Claim time duration
  | Begin ClaimedSagaStep
  | Finish string time "error option"
  | Cancel string time

definition apply_event :: "'s stepQueueStore \<Rightarrow> event \<Rightarrow> 's sys \<Rightarrow> 's sys option" where
  "apply_event ops e S = (case e of
     Start rnd now steps \<Rightarrow>
       if \<not> int (length steps) < 2147483648 then None else Some (S\<lparr>store_of := snd (StartSagaWithIdempotencyKey (Some ops) (\<lambda>_. Inr (Some Map.empty)) (Inr rnd)
         now live live ''order'' '''' ''{}'' steps (store_of S))\<rparr>)
   | Claim now stale \<Rightarrow>
       (case store_ClaimNextStep ops live now stale (store_of S) of
          (Inr (Some d), s') \<Rightarrow> Some (S\<lparr>store_of := s', claims := d # claims S\<rparr>)
        | _ \<Rightarrow> None)
   | Begin d \<Rightarrow>
       if d \<in> set (claims S) \<and> Option.is_none (inflight S (claimed_SagaID d))
       then (case loadClaimedStepForDispatch ops live d (store_of S) of
               Inr (Some (g, st)) \<Rightarrow> Some (S\<lparr>claims := remove1 d (claims S),
                 inflight := (inflight S)(claimed_SagaID d \<mapsto> (d, g, st))\<rparr>)
             | _ \<Rightarrow> None)
       else None
   | Finish i now err \<Rightarrow>
       (case inflight S i of
          Some (d, g, st) \<Rightarrow> Some (S\<lparr>store_of := snd (updateClaimedStepAfterDispatch ops live now now d err (store_of S)),
            inflight := (inflight S)(i := None)\<rparr>)
        | None \<Rightarrow> None)
   | Cancel i now \<Rightarrow>
       if Option.is_none (inflight S i)
       then Some (S\<lparr>store_of := snd (store_Update ops live now i (cancelCandidate now) (store_of S))\<rparr>)
       else None)"

fun apply_events :: "'s stepQueueStore \<Rightarrow> event list \<Rightarrow> 's sys \<Rightarrow> 's sys option" where
  "apply_events ops [] S = Some S"
| "apply_events ops (e # es) S =
     (case apply_event ops e S of None \<Rightarrow> None | Some T \<Rightarrow> apply_events ops es T)"

lemma apply_event_step: "apply_event ops e S = Some T \<Longrightarrow> sys_step ops S T"
proof (cases e)
  case (Start rnd now steps)
  assume "apply_event ops e S = Some T"
  then have "int (length steps) < 2147483648" and T: "T = S\<lparr>store_of := snd (StartSagaWithIdempotencyKey (Some ops)
      (\<lambda>_. Inr (Some Map.empty)) (Inr rnd) now live live ''order'' '''' ''{}'' steps (store_of S))\<rparr>"
    using Start by (simp_all add: apply_event_def split: if_splits)
  then show ?thesis unfolding T by (intro start_saga [OF prod.collapse [symmetric]])
next
  case (Claim now stale)
  assume "apply_event ops e S = Some T"
  then show ?thesis using Claim claim_step
    by (fastforce simp: apply_event_def split: prod.splits sum.splits option.splits)
next
  case (Begin d)
  assume "apply_event ops e S = Some T"
  then show ?thesis using Begin begin_dispatch
    by (fastforce simp: apply_event_def Option.is_none_def split: if_splits sum.splits option.splits)
next
  case (Finish i now err)
  assume "apply_event ops e S = Some T"
  then show ?thesis using Finish finish_dispatch [OF _ prod.collapse [symmetric]]
    by (auto simp: apply_event_def split: option.splits)
next
  case (Cancel i now)
  assume "apply_event ops e S = Some T"
  then show ?thesis using Cancel cancel_saga [OF _ prod.collapse [symmetric]]
    by (auto simp: apply_event_def Option.is_none_def split: if_splits)
qed

lemma apply_events_reach: "sys_reach ops s0 S \<Longrightarrow> apply_events ops es S = Some T \<Longrightarrow> sys_reach ops s0 T"
  by (induction es arbitrary: S) (auto split: option.splits dest: apply_event_step intro: reach_step)

definition demo_id :: string where
  "demo_id = ''000102030405060708090a0b0c0d0e0f''"

definition demo_start :: event where
  "demo_start = Start (map char_of [0..<16::nat]) 1000
     [\<lparr>start_Name = ''reserve'', start_GRPCTarget = ''stock:1''\<rparr>,
      \<lparr>start_Name = ''charge'', start_GRPCTarget = ''bank:1''\<rparr>]"

definition demo_claim :: "int \<Rightarrow> string \<Rightarrow> 32 word \<Rightarrow> ClaimedSagaStep" where
  "demo_claim k name att =
     \<lparr>claimed_SagaID = demo_id, claimed_StepIndex = k, claimed_Name = name, claimed_Attempt = att\<rparr>"

text \<open>A predicate of the state after a run from the empty in-memory store.\<close>

definition after :: "event list \<Rightarrow> (Memory sys \<Rightarrow> bool) \<Rightarrow> bool" where
  "after es P = (case apply_events memory_store es (init_sys NewMemory) of None \<Rightarrow> False | Some S \<Rightarrow> P S)"

lemma after_reach: "after es P \<Longrightarrow> \<exists>S. sys_reach memory_store NewMemory S \<and> P S"
  unfolding after_def by (auto split: option.splits intro: apply_events_reach [OF reach_init])

text \<open>What the example saga looks like in a state.\<close>

definition demo_view :: "Memory sys \<Rightarrow> (SagaStatus \<times> SagaStepStatus list) option" where
  "demo_view S = map_option (\<lambda>g. (Status g, map step_Status (Steps g))) (memory_lookup (store_of S) demo_id)"

text \<open>
  The first claim of step 0 is delayed, becomes stale and is taken again; the second worker
  finishes the step, the next step is executed too, and the saga is cancelled. Then the delayed
  worker gets the lock.
\<close>

definition late_worker :: "event list" where
  "late_worker =
     [demo_start, Claim 2000 100, Claim 3000 100,
      Begin (demo_claim 0 ''reserve'' 2), Finish demo_id 3001 None,
      Claim 3002 100, Begin (demo_claim 1 ''charge'' 1), Finish demo_id 3003 None,
      Cancel demo_id 4000, Begin (demo_claim 0 ''reserve'' 1)]"

text \<open>The claim and the dispatched step in flight for the example saga.\<close>

definition demo_inflight :: "Memory sys \<Rightarrow> (int \<times> SagaStepStatus) option" where
  "demo_inflight S = map_option (\<lambda>(d, g, st). (claimed_StepIndex d, step_Status st)) (inflight S demo_id)"

text \<open>When the steps of the example saga were started.\<close>

definition demo_times :: "Memory sys \<Rightarrow> (SagaStatus \<times> time option list) option" where
  "demo_times S = map_option (\<lambda>g. (Status g, map StartedAt (Steps g))) (memory_lookup (store_of S) demo_id)"

text \<open>The runs, evaluated together.\<close>

lemma demo_runs:
  "after [demo_start] (\<lambda>S. demo_view S = Some (SagaStatusCreated, [SagaStepStatusPending, SagaStepStatusPending])
      \<and> list_all (\<lambda>(k, g). list_all (\<lambda>st. step_Status st = SagaStepStatusPending) (Steps g)) (sagas (store_of S)))
   \<and> after [demo_start, Claim 2000 100] (\<lambda>S. claims S = [demo_claim 0 ''reserve'' 1] \<and> demo_inflight S = None
      \<and> demo_times S = Some (SagaStatusCreated, [Some 2000, None])
      \<and> demo_view S = Some (SagaStatusCreated, [SagaStepStatusRunning, SagaStepStatusPending]))
   \<and> after [demo_start, Claim 2000 100, Begin (demo_claim 0 ''reserve'' 1),
        Finish demo_id 2001 (Some (Opaque ''no stock''))]
      (\<lambda>S. demo_view S = Some (SagaStatusFailed, [SagaStepStatusFailed, SagaStepStatusPending]))
   \<and> after [demo_start, Claim 2000 100, Begin (demo_claim 0 ''reserve'' 1), Finish demo_id 2001 None,
        Claim 2002 100, Begin (demo_claim 1 ''charge'' 1)]
      (\<lambda>S. demo_inflight S = Some (1, SagaStepStatusRunning)
        \<and> demo_view S = Some (SagaStatusRunning, [SagaStepStatusCompleted, SagaStepStatusRunning]))
   \<and> after [demo_start, Claim 2000 100, Begin (demo_claim 0 ''reserve'' 1), Finish demo_id 2001 None,
        Claim 2002 100, Begin (demo_claim 1 ''charge'' 1), Finish demo_id 2003 None]
      (\<lambda>S. demo_view S = Some (SagaStatusCompleted, [SagaStepStatusCompleted, SagaStepStatusCompleted]))
   \<and> after (late_worker @ [Finish demo_id 4001 None])
      (\<lambda>S. demo_view S = Some (SagaStatusCanceling, [SagaStepStatusCompensated, SagaStepStatusCompleted]))"
  by code_simp

lemmas started_run = demo_runs [THEN conjunct1]
  and claimed_run = demo_runs [THEN conjunct2, THEN conjunct1]
  and failed_run = demo_runs [THEN conjunct2, THEN conjunct2, THEN conjunct1]
  and second_step_run = demo_runs [THEN conjunct2, THEN conjunct2, THEN conjunct2, THEN conjunct1]
  and completed_run = demo_runs [THEN conjunct2, THEN conjunct2, THEN conjunct2, THEN conjunct2, THEN conjunct1]
  and late_worker_run = demo_runs [THEN conjunct2, THEN conjunct2, THEN conjunct2, THEN conjunct2, THEN conjunct2]

end
