(* ===== verification/Postgres_System.thy ===== *)
theory Postgres_System
  imports Postgres_Laws Scenario
begin

text \<open>
  The orchestrator over Postgres: the transition system of \<open>System\<close> where every step meets its
  own behaviour of the database, what its reachable states guarantee, which step a claim takes,
  and where the Postgres store differs from the in-memory one.
\<close>

section \<open>Reachable tables\<close>

inductive pg_reach :: "pg_db sys \<Rightarrow> bool" where
  pg_init: "pg_reach (init_sys empty_db)"
| pg_step: "pg_reach S \<Longrightarrow> sys_step (postgres_store env) S T \<Longrightarrow> pg_reach T"

lemma pg_reach_inv: "pg_reach S \<Longrightarrow> sys_inv pg_lookup pg_inv S"
proof (induction rule: pg_reach.induct)
  case pg_init
  show ?case by (simp add: sys_inv_def init_sys_def)
next
  case (pg_step S env T)
  then show ?case using pg.sys_step_inv by blast
qed

lemma pg_events_reach: "pg_reach S \<Longrightarrow> apply_events (postgres_store env) es S = Some T \<Longrightarrow> pg_reach T"
  by (induction es arbitrary: S) (auto split: option.splits dest: apply_event_step intro: pg_step)

text \<open>A database that answers every call, whose clock shows \<open>t\<close>.\<close>

definition healthy_env :: "time \<Rightarrow> pg_env" where
  "healthy_env t = \<lparr>fault = (\<lambda>_. None), marshalErr = None, jsonbText = (\<lambda>_. ''{}''), pgText = (\<lambda>s. s),
     dbNow = t, lockedRow = (\<lambda>_. False)\<rparr>"

definition demo_rows :: "pg_db sys \<Rightarrow> (string \<times> string \<times> (string \<times> time option) list) list" where
  "demo_rows S = map (\<lambda>(i, row). (i, row_status row,
     map (\<lambda>r. (srow_status r, srow_started_at r)) (sql_GetSagaSteps i (store_of S)))) (saga_rows (store_of S))"

lemma demo_pg_run:
  "map_option (\<lambda>S. (claims S, demo_rows S,
       fst (Postgres_ClaimNextStep (healthy_env 5000) live 900000 100 (store_of S)))) (apply_events (postgres_store (healthy_env 5000))
     [demo_start, Claim 9000 100] (init_sys empty_db))
   = Some ([demo_claim 0 ''reserve'' 1],
       [(demo_id, ''CREATED'', [(''RUNNING'', Some 5000), (''PENDING'', None)])], Inr (Some (demo_claim 0 ''reserve'' 2)))"
  by code_simp

lemma demo_pg:
  obtains S g where "pg_reach S" "pg_lookup (store_of S) demo_id = Some g" "Status g = SagaStatusCreated"
    "map step_Status (Steps g) = [SagaStepStatusRunning, SagaStepStatusPending]"
    "map StartedAt (Steps g) = [Some 5000, None]" "demo_claim 0 ''reserve'' 1 \<in> set (claims S)"
    "fst (Postgres_ClaimNextStep (healthy_env 5000) live 900000 100 (store_of S)) = Inr (Some (demo_claim 0 ''reserve'' 2))"
proof -
  from demo_pg_run obtain S where S: "apply_events (postgres_store (healthy_env 5000)) [demo_start, Claim 9000 100]
      (init_sys empty_db) = Some S" "claims S = [demo_claim 0 ''reserve'' 1]"
    "demo_rows S = [(demo_id, ''CREATED'', [(''RUNNING'', Some 5000), (''PENDING'', None)])]"
    "fst (Postgres_ClaimNextStep (healthy_env 5000) live 900000 100 (store_of S)) = Inr (Some (demo_claim 0 ''reserve'' 2))"
    by auto
  from S(3) obtain row where row: "saga_rows (store_of S) = [(demo_id, row)]" "row_status row = ''CREATED''"
    and "map (\<lambda>r. (srow_status r, srow_started_at r)) (sql_GetSagaSteps demo_id (store_of S))
      = [(''RUNNING'', Some 5000), (''PENDING'', None)]"
    by (auto simp: demo_rows_def map_eq_Cons_conv)
  then obtain r r' where steps: "sql_GetSagaSteps demo_id (store_of S) = [r, r']" "srow_status r = ''RUNNING''"
    "srow_started_at r = Some 5000" "srow_status r' = ''PENDING''" "srow_started_at r' = None"
    by (auto simp: map_eq_Cons_conv)
  have "pg_lookup (store_of S) demo_id = Some (saga_of_row (store_of S) demo_id row)"
    by (simp add: pg_lookup_def row)
  then show thesis
  proof (rule that [OF pg_events_reach [OF pg_init S(1)]])
    show "map step_Status (Steps (saga_of_row (store_of S) demo_id row)) = [SagaStepStatusRunning, SagaStepStatusPending]"
      "map StartedAt (Steps (saga_of_row (store_of S) demo_id row)) = [Some 5000, None]"
      using steps by (simp_all add: saga_of_row_def step_of_row_def to_SagaStepStatus_def)
  qed (simp_all add: S(2,4) saga_of_row_def row(2) to_SagaStatus_def)
qed

text \<open>C6. Over Postgres too every stored saga is well-formed in every reachable state, whatever calls of
  the database fail, whatever its clock shows, whatever rows are locked: it has the shape its status
  promises, every step under way says since when, and its step rows are numbered without a gap.\<close>

theorem postgres_sagas_well_formed:
  assumes "pg_reach S" and "pg_lookup (store_of S) i = Some g"
  shows "ID g = i \<and> saga_shape (Status g) (map step_Status (Steps g)) \<and> steps_started g
    \<and> dense (store_of S) i (length (Steps g))"
proof -
  have inv: "pg_inv (store_of S)" and good: "saga_good g"
    using pg_reach_inv [OF assms(1)] assms(2) by (auto simp: sys_inv_def)
  obtain row where row: "map_of (saga_rows (store_of S)) i = Some row" using assms(2) by (auto simp: pg_lookup_def)
  then obtain n where n: "dense (store_of S) i n" using pg_invD(4) [OF inv] by blast
  have "length (Steps g) = n" using pg_lookup_steps [OF inv row n] assms(2) by auto
  then show ?thesis using good n pg_lookup_kept(2) [OF inv assms(2)] by (simp add: saga_good_def saga_ok_def)
qed

theorem postgres_sagas_well_formed_witness:
  "\<exists>S g. pg_reach S \<and> pg_lookup (store_of S) demo_id = Some g \<and> Status g = SagaStatusCreated
     \<and> saga_shape (Status g) (map step_Status (Steps g))"
  by (rule demo_pg) (use postgres_sagas_well_formed in blast)

text \<open>C10. Over Postgres no step of the system, with any behaviour of the database, loses a saga or changes
  what was requested, and statuses move along the state machine only: what the in-memory store
  guarantees holds for the tables.\<close>

theorem postgres_sagas_only_progress:
  assumes "pg_reach S" and "sys_step (postgres_store env) S T" and "pg_lookup (store_of S) i = Some g"
  shows "\<exists>h. pg_lookup (store_of T) i = Some h \<and> saga_frame g h \<and> transits (Status g) (Status h)
    \<and> (\<forall>k < length (Steps g). status_at g k \<noteq> SagaStepStatusPending \<longrightarrow> status_at h k \<noteq> SagaStepStatusPending)"
  using pg.sys_step_inv [OF assms(2) pg_reach_inv [OF assms(1)]] assms(3)
  by (auto simp: evolves_def saga_progress_def)

theorem postgres_sagas_only_progress_witness:
  "\<exists>S T g h. pg_reach S \<and> sys_step (postgres_store (healthy_env 0)) S T
     \<and> pg_lookup (store_of S) demo_id = Some g \<and> pg_lookup (store_of T) demo_id = Some h
     \<and> transits (Status g) (Status h)"
proof (rule demo_pg)
  fix S g
  assume S: "pg_reach S" "pg_lookup (store_of S) demo_id = Some g" "demo_claim 0 ''reserve'' 1 \<in> set (claims S)"
  show ?thesis
    using postgres_sagas_only_progress [OF S(1) lose_claim [OF S(3)] S(2)] lose_claim [OF S(3)] S(1,2) by blast
qed

section \<open>Which step a claim takes\<close>

text \<open>The rows that may be claimed: their step is claimable and open, and nobody has locked them.\<close>

definition open_rows :: "pg_env \<Rightarrow> time \<Rightarrow> pg_db \<Rightarrow> ((string \<times> int) \<times> step_row) list" where
  "open_rows env threshold db = filter (\<lambda>((i, k), r). \<not> lockedRow env (srow_id r)
     \<and> (\<exists>g. pg_lookup db i = Some g \<and> claimable g (nat k) \<and> claim_open threshold g (nat k))) (step_rows db)"

lemma candidates_open:
  assumes "pg_inv db"
  shows "filter (\<lambda>p. sql_candidate db threshold p \<and> \<not> lockedRow env (srow_id (snd p))) (step_rows db)
    = open_rows env threshold db"
  unfolding open_rows_def
proof (rule filter_cong [OF refl], clarsimp)
  fix i k r assume "((i, k), r) \<in> set (step_rows db)"
  then have r: "map_of (step_rows db) (i, k) = Some r"
    using map_of_Some_in_set_iff [OF pg_invD(2) [OF assms]] by blast
  from row_in_saga [OF assms r] obtain g m where g: "pg_lookup db i = Some g" "k = int m" by metis
  then show "(sql_candidate db threshold ((i, k), r) \<and> \<not> lockedRow env (srow_id r)) \<longleftrightarrow>
      (\<not> lockedRow env (srow_id r)
       \<and> (\<exists>g. pg_lookup db i = Some g \<and> claimable g (nat k) \<and> claim_open threshold g (nat k)))"
    using sql_candidate_iff [OF assms r [unfolded g(2)] g(1)] by auto
qed

text \<open>C9. Which step Postgres claims. When the database answers, a claim takes, of all claimable steps
  that are not under way or were started before the stale threshold and that nobody has locked, the
  one whose row has waited longest (the oldest change, then the smallest row id), and changes that
  row only; it reports nothing exactly when there is no such step. A step whose attempt counter is
  at its 32-bit maximum makes the claim fail instead.\<close>

theorem postgres_claims_longest_waiting:
  assumes "pg_inv db" and "\<forall>n. fault env n = None"
  shows "if open_rows env (micro (now - stale)) db = []
    then Postgres_ClaimNextStep env live now stale db = (Inr None, db)
    else \<exists>i k r. ((i, k), r) \<in> set (open_rows env (micro (now - stale)) db)
      \<and> (\<forall>(key, r') \<in> set (open_rows env (micro (now - stale)) db).
           (srow_updated_at r, srow_id r) \<le> (srow_updated_at r', srow_id r'))
      \<and> Postgres_ClaimNextStep env live now stale db =
        (if srow_attempt r = 2147483647 then (Inl (Foreign (PgError ''22003'') (pgText env ''22003'')), db)
         else (Inr (Some \<lparr>claimed_SagaID = i, claimed_StepIndex = k, claimed_Name = srow_name r,
             claimed_Attempt = word_of_int (srow_attempt r + 1)\<rparr>),
           db\<lparr>step_rows := AList.update (i, k) (claimed_row env
             (if map_option row_status (map_of (saga_rows db) i) = Some ''CANCELING'' then ''COMPENSATING''
              else ''RUNNING'') r) (step_rows db)\<rparr>))"
proof -
  let ?xs = "open_rows env (micro (now - stale)) db" and ?key = "\<lambda>(key, row). (srow_updated_at row, srow_id row)"
  have call: "db_call env live n x = x" for n and x :: "error + 'z" using assms(2) by (simp add: db_call_def)
  note claim = Postgres_ClaimNextStep_def sql_ClaimNextStep_def Let_def toPGTime_def call candidates_open [OF assms(1)]
  show ?thesis
  proof (cases "sort_key ?key ?xs")
    case Nil
    then have "?xs = []" by (metis length_0_conv length_sort)
    then show ?thesis by (simp add: claim)
  next
    case (Cons p rest)
    obtain i k r where p: "p = ((i, k), r)" by (metis prod.exhaust)
    have set: "set (sort_key ?key ?xs) = set ?xs" by (rule set_sort)
    then have r: "((i, k), r) \<in> set ?xs" using Cons p by (metis list.set_intros(1))
    have "sorted (map ?key (p # rest))" using sorted_sort_key [of ?key ?xs] by (simp only: Cons)
    then have least: "?key p \<le> ?key q" if "q \<in> set ?xs" for q
      using that set unfolding Cons by auto
    have row: "map_of (step_rows db) (i, k) = Some r"
      using r map_of_Some_in_set_iff [OF pg_invD(2) [OF assms(1)]] by (auto simp: open_rows_def)
    have "srow_attempt r \<le> 2147483647" using pg_invD(5) [OF assms(1) row] by (simp add: step_row_ok_def)
    then have "Postgres_ClaimNextStep env live now stale db =
        (if srow_attempt r = 2147483647 then (Inl (Foreign (PgError ''22003'') (pgText env ''22003'')), db)
         else (Inr (Some \<lparr>claimed_SagaID = i, claimed_StepIndex = k, claimed_Name = srow_name r,
             claimed_Attempt = word_of_int (srow_attempt r + 1)\<rparr>),
           db\<lparr>step_rows := AList.update (i, k) (claimed_row env
             (if map_option row_status (map_of (saga_rows db) i) = Some ''CANCELING'' then ''COMPENSATING''
              else ''RUNNING'') r) (step_rows db)\<rparr>))"
      by (simp add: claim Cons p serverError_def claimed_row_def)
    moreover have "?xs \<noteq> []" using r by auto
    moreover have "\<forall>(key, r') \<in> set ?xs. (srow_updated_at r, srow_id r) \<le> (srow_updated_at r', srow_id r')"
      using least p by fastforce
    ultimately show ?thesis using r by (simp only: if_False) blast
  qed
qed

lemma open_rows_nonempty:
  assumes "pg_inv db" and "pg_lookup db i = Some g" and "claimable g k" and "claim_open threshold g k"
    and "\<forall>x. \<not> lockedRow env x"
  shows "open_rows env threshold db \<noteq> []"
proof -
  obtain row where row: "map_of (saga_rows db) i = Some row" using assms(2) by (auto simp: pg_lookup_def)
  then obtain n where n: "dense db i n" using pg_invD(4) [OF assms(1)] by blast
  have "k < length (Steps g)" using assms(3) by (auto simp: claimable_def exec_ready_def comp_ready_def)
  then have "k < n" using pg_lookup_steps [OF assms(1) row n] assms(2) by auto
  then obtain r where "map_of (step_rows db) (i, int k) = Some r" using n by (fastforce simp: dense_def)
  then have "((i, int k), r) \<in> set (open_rows env threshold db)"
    using assms(2-5) by (auto simp: open_rows_def dest: map_of_SomeD)
  then show ?thesis by (auto simp del: open_rows_def)
qed

lemma claim_not_none:
  assumes "pg_inv db" and "pg_lookup db i = Some g" and "claimable g k" and "claim_open (micro (now - stale)) g k"
    and "\<forall>n. fault env n = None" and "\<forall>x. \<not> lockedRow env x"
  shows "fst (Postgres_ClaimNextStep env live now stale db) \<noteq> Inr None"
proof -
  have call: "db_call env live n x = x" for n and x :: "error + 'z" using assms(5) by (simp add: db_call_def)
  have "open_rows env (micro (now - stale)) db \<noteq> []" using open_rows_nonempty [OF assms(1-4,6)] .
  then have "sort_key (\<lambda>(key, row). (srow_updated_at row, srow_id row)) (open_rows env (micro (now - stale)) db) \<noteq> []"
    by (metis length_0_conv length_sort)
  then show ?thesis
    by (auto simp: Postgres_ClaimNextStep_def sql_ClaimNextStep_def Let_def toPGTime_def call
        candidates_open [OF assms(1)] serverError_def split: list.splits)
qed

theorem postgres_claims_longest_waiting_witness:
  "\<exists>S. pg_reach S \<and> open_rows (healthy_env 9000000) 899000 (store_of S) \<noteq> []
     \<and> fst (Postgres_ClaimNextStep (healthy_env 9000000) live 900000 100 (store_of S)) \<noteq> Inr None"
proof (rule demo_pg)
  fix S g
  assume S: "pg_reach S" "pg_lookup (store_of S) demo_id = Some g" "Status g = SagaStatusCreated"
    "map step_Status (Steps g) = [SagaStepStatusRunning, SagaStepStatusPending]"
    "map StartedAt (Steps g) = [Some 5000, None]"
  let ?env = "healthy_env 9000000"
  have inv: "pg_inv (store_of S)" using pg_reach_inv [OF S(1)] by (simp add: sys_inv_def)
  have env: "\<forall>n. fault ?env n = None" "\<forall>x. \<not> lockedRow ?env x" by (simp_all add: healthy_env_def)
  have "claimable g 0" "claim_open (micro (900000 - 100)) g 0"
    using S(3-5) by (auto simp: claimable_def exec_ready_def claim_open_def micro_def map_eq_Cons_conv)
  then have "open_rows ?env (micro (900000 - 100)) (store_of S) \<noteq> []"
    using open_rows_nonempty [OF inv S(2) _ _ env(2)] by blast
  moreover from this have "fst (Postgres_ClaimNextStep ?env live 900000 100 (store_of S)) \<noteq> Inr None"
    using postgres_claims_longest_waiting [OF inv env(1), of 900000 100] by (auto split: if_splits)
  ultimately show ?thesis using S(1) by (auto simp: micro_def)
qed

section \<open>A stale step stays claimable\<close>

text \<open>C31. Postgres keeps the instant at which a step was first started when it is claimed again
  (\<^verbatim>\<open>COALESCE(started_at, NOW())\<close>). So a claim does not protect a step that had been started
  before: when that start is older than the stale timeout, the step is open again at once, and the
  next claim, however soon, finds work again. This concerns every step claimed again after its
  worker stalled and every compensation that begins after the stale timeout; the in-memory store
  resets the instant and keeps the claim exclusive.\<close>

theorem postgres_reclaims_at_once:
  assumes "pg_inv db" and "Postgres_ClaimNextStep env c now stale db = (Inr (Some d), db')"
    and "pg_lookup db (claimed_SagaID d) = Some g" and "claimed_StepIndex d = int k"
    and "StartedAt (Steps g ! k) = Some t" and "t \<le> now' - stale"
    and "\<forall>n. fault env' n = None" and "\<forall>x. \<not> lockedRow env' x"
  shows "\<exists>g'. pg_lookup db' (claimed_SagaID d) = Some g' \<and> StartedAt (Steps g' ! k) = Some t
    \<and> claimable g' k \<and> claim_open (micro (now' - stale)) g' k
    \<and> fst (Postgres_ClaimNextStep env' live now' stale db') \<noteq> Inr None"
proof -
  from pg_claim_saga [OF assms(1,2)] assms(3-5) obtain g' where inv': "pg_inv db'" and ce: "claim_effect d g g'"
    and look: "pg_lookup db' = (pg_lookup db)(claimed_SagaID d \<mapsto> g')" and start: "StartedAt (Steps g' ! k) = Some t"
    by auto
  have g': "pg_lookup db' (claimed_SagaID d) = Some g'" using look by simp
  from ce obtain u v where cl: "claimable g k" and eq: "g' = g\<lparr>Steps := (Steps g)[k := (Steps g ! k)\<lparr>step_Status := claim_status g,
      Attempt := Attempt (Steps g ! k) + 1, StartedAt := Some u, FinishedAt := None, step_Error := ''''\<rparr>], UpdatedAt := v\<rparr>"
    using assms(4) by (auto simp: claim_effect_def)
  have k: "k < length (Steps g)" using cl by (auto simp: claimable_def exec_ready_def comp_ready_def)
  have claimable: "claimable g' k"
    using cl k by (auto simp: eq claimable_def exec_ready_def comp_ready_def claim_status_def settled_def)
  have "k < length (Steps g')" using k by (simp add: eq)
  then have "keep_step (Steps g' ! k) = Steps g' ! k"
    using arg_cong [OF pg_lookup_kept(1) [OF inv' g'], of "\<lambda>x. Steps x ! k"] by (simp add: pg_keep_def)
  then have "StartedAt (keep_step (Steps g' ! k)) = StartedAt (Steps g' ! k)" by (simp only:)
  then have "micro t = t" using start by (simp add: keep_step_def)
  then have "claim_open (micro (now' - stale)) g' k"
    using start assms(6) by (simp add: claim_open_def micro_le_iff)
  then show ?thesis using g' start claimable claim_not_none [OF inv' g' claimable _ assms(7,8)] by blast
qed

theorem postgres_reclaims_at_once_witness:
  "\<exists>S db'. pg_reach S
     \<and> Postgres_ClaimNextStep (healthy_env 5000) live 900000 100 (store_of S) = (Inr (Some (demo_claim 0 ''reserve'' 2)), db')
     \<and> fst (Postgres_ClaimNextStep (healthy_env 5000) live 900001 100 db') \<noteq> Inr None"
proof (rule demo_pg)
  fix S g
  assume S: "pg_reach S" "pg_lookup (store_of S) demo_id = Some g" "map StartedAt (Steps g) = [Some 5000, None]"
    "fst (Postgres_ClaimNextStep (healthy_env 5000) live 900000 100 (store_of S)) = Inr (Some (demo_claim 0 ''reserve'' 2))"
  have inv: "pg_inv (store_of S)" using pg_reach_inv [OF S(1)] by (simp add: sys_inv_def)
  obtain db' where cl: "Postgres_ClaimNextStep (healthy_env 5000) live 900000 100 (store_of S)
      = (Inr (Some (demo_claim 0 ''reserve'' 2)), db')" using S(4) by (metis prod.collapse)
  have "pg_lookup (store_of S) (claimed_SagaID (demo_claim 0 ''reserve'' 2)) = Some g"
    "claimed_StepIndex (demo_claim 0 ''reserve'' 2) = int 0" "StartedAt (Steps g ! 0) = Some 5000"
    using S(2,3) by (auto simp: demo_claim_def)
  from postgres_reclaims_at_once [OF inv cl this, of 900001 "healthy_env 5000"] show ?thesis
    using S(1) cl by (auto simp: healthy_env_def)
qed

section \<open>Reading back\<close>

text \<open>On a database that answers, every step list within the column types is written.\<close>

lemma replaceSteps_loop_succeeds:
  assumes "\<forall>n. fault env n = None" and "\<forall>st \<in> set steps. declared_step_status (step_Status st) \<and> 0 \<le> sint (Attempt st)"
    and "int (m + length steps) \<le> 2147483648"
  shows "\<exists>db'. replaceSteps_loop env live n i m steps db = Inr db'"
  using assms(2,3)
proof (induction steps arbitrary: n m db)
  case (Cons st steps)
  have "step_status_check (step_status_string (step_Status st))"
    using Cons.prems(1) by (cases "step_Status st") (simp_all add: step_status_check_def)
  moreover have "wrap32 (int m) = int m" using Cons.prems(2) by (intro wrap32_id) auto
  moreover have "0 \<le> sint (Attempt st)" using Cons.prems(1) by simp
  ultimately have "\<exists>db1. db_call env live n (sql_UpsertSagaStep env i (wrap32 (int m))
        \<lparr>srow_id = 0, srow_name = step_Name st, srow_grpc_target = GRPCTarget st,
         srow_status = step_status_string (step_Status st), srow_attempt = sint (Attempt st),
         srow_started_at = map_option micro (toNullablePGTime (StartedAt st)),
         srow_finished_at = map_option micro (toNullablePGTime (FinishedAt st)),
         srow_error = toNullableText (step_Error st), srow_updated_at = 0\<rparr> db) = Inr db1"
    using assms(1) by (auto simp: db_call_def sql_UpsertSagaStep_def Let_def)
  then show ?case using Cons.IH [of "m + 1"] Cons.prems by auto
qed simp

lemma pg_parseContext_readable:
  assumes "stored \<noteq> None" and "0 < length (jsonbText env stored)" and "int (length (jsonbText env stored)) \<le> 65536"
  shows "Postgres_parseContext env stored = Inr stored"
  using assms by (cases stored) (auto simp: Postgres_parseContext_def ParseSagaContext_def MaxSagaContextBytes_def)

lemma pg_get_live:
  assumes "pg_inv db" and "pg_lookup db i = Some g" and "\<forall>n. fault env n = None"
    and "Postgres_parseContext env (Context g) = Inr (Context g)"
  shows "Postgres_Get env live i db = Inr g"
proof -
  obtain row where row: "map_of (saga_rows db) i = Some row" and g: "g = saga_of_row db i row"
    using assms(2) by (auto simp: pg_lookup_def)
  have "mapSagaRow env i row = Inr (g\<lparr>Steps := []\<rparr>)"
    using assms(4) pg_invD(3) [OF assms(1) row]
    by (simp add: mapSagaRow_def saga_row_ok_def ParseSagaStatus_checked g saga_of_row_def)
  then show ?thesis
    using assms(3) row mapStepRows_ok [OF assms(1), of i]
    by (simp add: Postgres_Get_def db_call_def sql_GetSaga_def fetchSteps_def) (simp add: g saga_of_row_def)
qed

text \<open>C30. What Postgres stores can be read back: a new saga with declared statuses, fewer than \<open>2 ^ 31\<close> steps
  and attempts below \<open>2 ^ 31\<close> is created by a database that answers, and reading it, as long
  as the text the server prints for its context is within the limit of 64 KiB, gives the saga with
  its instants cut to microseconds, its blank error texts emptied and its context as JSON; every
  other saga is as before.\<close>

theorem postgres_create_then_get:
  assumes "pg_inv db" and "pg_lookup db (ID g) = None" and "\<forall>n. fault env n = None" and "marshalErr env = None"
    and "declared_status (Status g)" and "\<forall>st \<in> set (Steps g). declared_step_status (step_Status st) \<and> 0 \<le> sint (Attempt st)"
    and "int (length (Steps g)) < 2147483648" and "Context g \<noteq> None" and "\<forall>n. fault env' n = None"
    and "0 < length (jsonbText env' (json_context (Context g)))"
    and "int (length (jsonbText env' (json_context (Context g)))) \<le> 65536"
  shows "\<exists>db'. Postgres_Create env live g db = (None, db') \<and> Postgres_Get env' live (ID g) db' = Inr (pg_keep g)
    \<and> (\<forall>j. j \<noteq> ID g \<longrightarrow> pg_lookup db' j = pg_lookup db j)"
proof -
  have call: "db_call env live n x = x" for n and x :: "error + 'z" using assms(3) by (simp add: db_call_def)
  have check: "saga_status_check (saga_status_string (Status g))"
    using assms(5) by (cases "Status g") (simp_all add: saga_status_check_def)
  have new: "map_of (saga_rows db) (ID g) = None" using assms(2) by (simp add: pg_lookup_def)
  have steps: "\<exists>db'. replaceSteps env live 2 (ID g) (Steps g) db1 = Inr db'" for db1
    using replaceSteps_loop_succeeds [OF assms(3,6), of 0 2 "ID g" db1] assms(7)
    by (auto simp: replaceSteps_def call)
  have "\<exists>db'. Postgres_Create env live g db = (None, db')"
  proof -
    let ?row = "\<lparr>row_workflow = Workflow g, row_status = saga_status_string (Status g),
      row_context = json_context (Context g), row_created_at = micro (toPGTime (CreatedAt g)),
      row_updated_at = micro (toPGTime (UpdatedAt g))\<rparr>"
    let ?db1 = "db\<lparr>saga_rows := (ID g, ?row) # saga_rows db\<rparr>"
    have cr: "sql_CreateSaga env (ID g) ?row db = Inr ?db1" using check new by (simp add: sql_CreateSaga_def)
    obtain db' where "replaceSteps env live 2 (ID g) (Steps g) ?db1 = Inr db'" using steps by blast
    then show ?thesis using assms(4) by (simp add: Postgres_Create_def call cr)
  qed
  then obtain db' where created: "Postgres_Create env live g db = (None, db')" ..
  from pg_create_ok [OF assms(1) created pg_fits_few [OF assms(7)]] have inv': "pg_inv db'"
    and look: "pg_lookup db' = (pg_lookup db)(ID g \<mapsto> pg_keep g)" by blast+
  have "json_context (Context g) \<noteq> None" using assms(8) by (cases "Context g") (simp_all add: json_context_def)
  then have "Postgres_parseContext env' (Context (pg_keep g)) = Inr (Context (pg_keep g))"
    using assms(10,11) pg_parseContext_readable by (simp add: pg_keep_def)
  then have "Postgres_Get env' live (ID g) db' = Inr (pg_keep g)"
    using pg_get_live [OF inv' _ assms(9)] look by simp
  then show ?thesis using created look by simp
qed

definition demo_saga :: Saga where
  "demo_saga = \<lparr>ID = ''a'', Workflow = ''w'', Status = SagaStatusCreated, Context = Some Map.empty,
     Steps = [\<lparr>step_Name = ''s'', GRPCTarget = ''t'', step_Status = SagaStepStatusPending, Attempt = 0,
       StartedAt = None, FinishedAt = None, step_Error = '' ''\<rparr>], CreatedAt = 1234567, UpdatedAt = 1234567\<rparr>"

theorem postgres_create_then_get_witness:
  "\<exists>db'. Postgres_Create (healthy_env 0) live demo_saga empty_db = (None, db')
     \<and> Postgres_Get (healthy_env 0) live ''a'' db' = Inr (pg_keep demo_saga)"
proof -
  have "\<exists>db'. Postgres_Create (healthy_env 0) live demo_saga empty_db = (None, db')
      \<and> Postgres_Get (healthy_env 0) live (ID demo_saga) db' = Inr (pg_keep demo_saga)
      \<and> (\<forall>j. j \<noteq> ID demo_saga \<longrightarrow> pg_lookup db' j = pg_lookup empty_db j)"
    by (rule postgres_create_then_get) (simp_all add: healthy_env_def demo_saga_def)
  then show ?thesis by (auto simp: demo_saga_def)
qed

text \<open>C32. The limit on contexts is checked again on the server's text of the stored value, which may be
  longer than the text that was accepted: then the saga is stored and every read of it, and every
  update, fails with the error of an invalid context and changes nothing.\<close>

theorem postgres_oversized_context_unreadable:
  assumes "pg_inv db" and "pg_lookup db i = Some g" and "\<forall>n. fault env n = None"
    and "65536 < int (length (jsonbText env (Context g)))"
  shows "\<exists>e. errors_Is e (PostgresErr ErrStoreSagaContext) \<and> Postgres_Get env live i db = Inl e
    \<and> Postgres_Update env live now i fn db = (Inl e, db)"
proof -
  obtain row where row: "map_of (saga_rows db) i = Some row" and g: "g = saga_of_row db i row"
    using assms(2) by (auto simp: pg_lookup_def)
  have "jsonbText env (Context g) \<noteq> []" using assms(4) by auto
  then obtain e where e: "Postgres_parseContext env (Context g) = Inl e" "errors_Is e (PostgresErr ErrStoreSagaContext)"
    using assms(4) by (auto simp: Postgres_parseContext_def ParseSagaContext_def MaxSagaContextBytes_def)
  have "mapSagaRow env i row = Inl e"
    using e(1) pg_invD(3) [OF assms(1) row] by (simp add: mapSagaRow_def saga_row_ok_def ParseSagaStatus_checked g saga_of_row_def)
  then show ?thesis
    using e(2) assms(3) row by (simp add: Postgres_Get_def Postgres_Update_def db_call_def sql_GetSaga_def)
qed

theorem postgres_oversized_context_unreadable_witness:
  "\<exists>S e. pg_reach S \<and> pg_lookup (store_of S) demo_id \<noteq> None
     \<and> Postgres_Get ((healthy_env 0)\<lparr>jsonbText := (\<lambda>_. replicate 70000 CHR ''x'')\<rparr>) live demo_id (store_of S) = Inl e"
proof (rule demo_pg)
  fix S g
  assume S: "pg_reach S" "pg_lookup (store_of S) demo_id = Some g"
  let ?env = "(healthy_env 0)\<lparr>jsonbText := (\<lambda>_. replicate 70000 CHR ''x'')\<rparr>"
  have inv: "pg_inv (store_of S)" using pg_reach_inv [OF S(1)] by (simp add: sys_inv_def)
  have "\<forall>n. fault ?env n = None" "65536 < int (length (jsonbText ?env (Context g)))"
    by (simp_all add: healthy_env_def)
  from postgres_oversized_context_unreadable [OF inv S(2) this] S show ?thesis by blast
qed

section \<open>Pages\<close>

text \<open>C33. Postgres takes limit and offset modulo \<open>2 ^ 32\<close>: an offset of \<open>2 ^ 32\<close> more returns the same page
  again, and an offset between \<open>2 ^ 31\<close> and \<open>2 ^ 32 - 1\<close>, which the HTTP interface accepts, is an error
  of the server instead of an empty page.\<close>

theorem postgres_list_offset_wraps:
  assumes "0 \<le> lim" and "lim \<le> 2147483647" and "0 \<le> off" and "\<forall>n. fault env n = None"
  shows "Postgres_List env live status lim (off + 4294967296) db = Postgres_List env live status lim off db
    \<and> (2147483648 \<le> off \<and> off < 4294967296 \<longrightarrow>
        Postgres_List env live status lim off db = Inl (Foreign (PgError ''2201X'') (pgText env ''2201X'')))"
proof -
  have "off + 4294967296 + 2147483648 = (off + 2147483648) + 4294967296" by simp
  then have "wrap32 (off + 4294967296) = wrap32 off" by (simp only: wrap32_def mod_add_self2)
  then have "Postgres_List env live status lim (off + 4294967296) db = Postgres_List env live status lim off db"
    using assms(1,3) by (simp add: Postgres_List_def Let_def split: sum.split)
  moreover have "Postgres_List env live status lim off db = Inl (Foreign (PgError ''2201X'') (pgText env ''2201X''))"
    if "2147483648 \<le> off" "off < 4294967296"
  proof -
    have "(off + 2147483648) mod 4294967296 = (off + 2147483648 - 4294967296) mod 4294967296"
      by (simp only: minus_mod_self2)
    also have "\<dots> = off + 2147483648 - 4294967296" using that by (intro mod_pos_pos_trivial) simp_all
    finally have "wrap32 off < 0" using that(2) by (simp add: wrap32_def)
    moreover have "wrap32 lim = lim" using assms(1,2) by (intro wrap32_id) auto
    ultimately show ?thesis using assms by (simp add: Postgres_List_def db_call_def sql_ListSagas_def serverError_def Let_def)
  qed
  ultimately show ?thesis by blast
qed

theorem postgres_list_offset_wraps_witness:
  "Postgres_List (healthy_env 0) live None 50 3000000000 empty_db = Inl (Foreign (PgError ''2201X'') ''2201X'')"
  using postgres_list_offset_wraps [of 50 3000000000 "healthy_env 0"] by (simp add: healthy_env_def)

end
