(* ===== verification/Main_Program.thy ===== *)
theory Main_Program
  imports Config Redis_Lock Postgres_System
begin



section \<open>Shutting down\<close>

definition httpReadHeaderTimeout :: duration where "httpReadHeaderTimeout = 5000000000"
definition httpReadTimeout :: duration where "httpReadTimeout = 30000000000"
definition httpWriteTimeout :: duration where "httpWriteTimeout = 30000000000"
definition httpIdleTimeout :: duration where "httpIdleTimeout = 120000000000"






section \<open>Pieces\<close>

record http_Server =
  Addr :: string
  ReadHeaderTimeout :: duration
  ReadTimeout :: duration
  WriteTimeout :: duration
  IdleTimeout :: duration

definition newHTTPServer :: "int \<Rightarrow> http_Server" where
  "newHTTPServer port = \<lparr>Addr = '':'' @ fmt_d port, ReadHeaderTimeout = httpReadHeaderTimeout,
     ReadTimeout = httpReadTimeout, WriteTimeout = httpWriteTimeout, IdleTimeout = httpIdleTimeout\<rparr>"



section \<open>Running\<close>





section \<open>Properties\<close>





end
