(* ===== verification/Worker_Pool.thy ===== *)
theory Worker_Pool
  imports Go_Errors
begin

text \<open>
  \<^verbatim>\<open>pkg/workerpool/workerpool.go\<close> as a transition system: the goroutines of the workers, the
  callers of \<^verbatim>\<open>Submit\<close> and \<^verbatim>\<open>Shutdown\<close>, the goroutine that waits for the workers and the reader of
  the results, in any interleaving. The buffered channels are lists of at most \<open>workers\<close> elements;
  \<^verbatim>\<open>done\<close> and \<^verbatim>\<open>stopped\<close> are closed or not. What the handler does with a task is left open: it may
  return anything, panic, or never return (then its step is not taken).
\<close>

section \<open>State\<close>

record 'r Result =
  Value :: 'r
  Err :: "error option"

text \<open>
  Where a worker is: at the select of \<^verbatim>\<open>worker\<close>, in the handler, at the send of a result (both with a
  flag for "inside \<^verbatim>\<open>drainTasks\<close>"), at the select of \<^verbatim>\<open>drainTasks\<close>, or gone.
\<close>

datatype ('t, 'r) worker_at =
    Selecting | Draining | Handling 't bool | Sending 't "'r Result" bool | Exited

text \<open>The goroutine started by the first \<^verbatim>\<open>Shutdown\<close>: not started, waiting, after each of its three calls.\<close>

datatype closer = NotStarted | WaitingForWorkers | ClosedResults | CanceledContext | ClosedStopped

text \<open>
  \<open>submitting\<close>: the tasks of the calls of \<^verbatim>\<open>Submit\<close> that are past the first select; \<open>accepted\<close>: those
  for which \<^verbatim>\<open>Submit\<close> has returned nil; \<open>delivered\<close>: the results that have been read, with their tasks.
\<close>

record ('t, 'r) Pool =
  pool_workers :: "('t, 'r) worker_at list"
  tasks :: "'t list"
  results :: "('t \<times> 'r Result) list"
  pool_done :: bool
  pool_closer :: closer
  canceled :: bool
  submitting :: "'t list"
  accepted :: "'t list"
  delivered :: "('t \<times> 'r Result) list"

abbreviation pool_size :: "('t, 'r) Pool \<Rightarrow> nat" where
  "pool_size p \<equiv> length (pool_workers p)"

definition results_closed :: "('t, 'r) Pool \<Rightarrow> bool" where
  "results_closed p \<longleftrightarrow> pool_closer p \<noteq> NotStarted \<and> pool_closer p \<noteq> WaitingForWorkers"

definition stopped :: "('t, 'r) Pool \<Rightarrow> bool" where
  "stopped p \<longleftrightarrow> pool_closer p = ClosedStopped"

text \<open>\<^verbatim>\<open>make(chan T, workers)\<close> panics for a negative size.\<close>

definition New_pool :: "int \<Rightarrow> error + ('t, 'r) Pool" where
  "New_pool workers =
     (if workers < 0 then Inl (Panicked ''makechan: size out of range'')
      else Inr \<lparr>pool_workers = replicate (nat workers) Selecting, tasks = [], results = [], pool_done = False,
             pool_closer = NotStarted, canceled = False, submitting = [], accepted = [], delivered = []\<rparr>)"

section \<open>A task\<close>

text \<open>What the handler did, and the result: \<open>zero\<close> is the zero value, \<open>stack\<close> the text of the stack.\<close>

datatype 'r outcome = Returned 'r "error option" | Raised string

definition handleTask :: "'r \<Rightarrow> string \<Rightarrow> 'r outcome \<Rightarrow> 'r Result" where
  "handleTask zero stack out =
     (case out of
        Returned v e \<Rightarrow> \<lparr>Value = v, Err = e\<rparr>
      | Raised recovered \<Rightarrow> \<lparr>Value = zero, Err = Some (Wrapped (pool_error_text ErrWorkerPanic @ '': '' @ recovered
          @ [CHR 10] @ stack) (Sentinel (PoolErr ErrWorkerPanic)))\<rparr>)"

section \<open>The goroutines\<close>

definition at :: "nat \<Rightarrow> ('t, 'r) worker_at \<Rightarrow> ('t, 'r) Pool \<Rightarrow> bool" where
  "at i w p \<longleftrightarrow> i < pool_size p \<and> pool_workers p ! i = w"

definition move :: "nat \<Rightarrow> ('t, 'r) worker_at \<Rightarrow> ('t, 'r) Pool \<Rightarrow> ('t, 'r) Pool" where
  "move i w p = p\<lparr>pool_workers := (pool_workers p)[i := w]\<rparr>"

text \<open>A send on the closed channel would panic outside \<^verbatim>\<open>handleTask\<close>; it has no step here and is shown not to occur.\<close>

inductive worker_step :: "('t, 'r) Pool \<Rightarrow> ('t, 'r) Pool \<Rightarrow> bool" where
  see_done: "at i Selecting p \<Longrightarrow> pool_done p \<Longrightarrow> worker_step p (move i Draining p)"
| take_task: "at i Selecting p \<Longrightarrow> tasks p = t # ts \<Longrightarrow> worker_step p (move i (Handling t False) (p\<lparr>tasks := ts\<rparr>))"
| drain_task: "at i Draining p \<Longrightarrow> tasks p = t # ts \<Longrightarrow> worker_step p (move i (Handling t True) (p\<lparr>tasks := ts\<rparr>))"
| drain_end: "at i Draining p \<Longrightarrow> tasks p = [] \<Longrightarrow> worker_step p (move i Exited p)"
| handled: "at i (Handling t b) p \<Longrightarrow> worker_step p (move i (Sending t (handleTask zero stack out) b) p)"
| send_result: "at i (Sending t r b) p \<Longrightarrow> length (results p) < pool_size p \<Longrightarrow> \<not> results_closed p
    \<Longrightarrow> worker_step p (move i (if b then Draining else Selecting) (p\<lparr>results := results p @ [(t, r)]\<rparr>))"

inductive submit_step :: "('t, 'r) Pool \<Rightarrow> ('t, 'r) Pool \<Rightarrow> bool" where
  submit_refused: "pool_done p \<Longrightarrow> submit_step p p"
| submit_checked: "\<not> pool_done p \<Longrightarrow> submit_step p (p\<lparr>submitting := t # submitting p\<rparr>)"
| submit_closed: "t \<in> set (submitting p) \<Longrightarrow> pool_done p \<Longrightarrow> submit_step p (p\<lparr>submitting := remove1 t (submitting p)\<rparr>)"
| submit_ctx_done: "t \<in> set (submitting p) \<Longrightarrow> submit_step p (p\<lparr>submitting := remove1 t (submitting p)\<rparr>)"
| submit_sent: "t \<in> set (submitting p) \<Longrightarrow> length (tasks p) < pool_size p \<Longrightarrow>
    submit_step p (p\<lparr>submitting := remove1 t (submitting p), tasks := tasks p @ [t], accepted := t # accepted p\<rparr>)"

text \<open>A call of \<^verbatim>\<open>Shutdown\<close>, its context ending first, and the waiting goroutine.\<close>

inductive shutdown_step :: "('t, 'r) Pool \<Rightarrow> ('t, 'r) Pool \<Rightarrow> bool" where
  shutdown_once: "pool_closer p = NotStarted \<Longrightarrow> shutdown_step p (p\<lparr>pool_done := True, pool_closer := WaitingForWorkers\<rparr>)"
| shutdown_again: "pool_closer p \<noteq> NotStarted \<Longrightarrow> shutdown_step p p"
| shutdown_ctx_done: "pool_closer p \<noteq> NotStarted \<Longrightarrow> shutdown_step p (p\<lparr>canceled := True\<rparr>)"

inductive closer_step :: "('t, 'r) Pool \<Rightarrow> ('t, 'r) Pool \<Rightarrow> bool" where
  close_results: "pool_closer p = WaitingForWorkers \<Longrightarrow> \<forall>w \<in> set (pool_workers p). w = Exited
    \<Longrightarrow> closer_step p (p\<lparr>pool_closer := ClosedResults\<rparr>)"
| cancel_context: "pool_closer p = ClosedResults \<Longrightarrow> closer_step p (p\<lparr>canceled := True, pool_closer := CanceledContext\<rparr>)"
| close_stopped: "pool_closer p = CanceledContext \<Longrightarrow> closer_step p (p\<lparr>pool_closer := ClosedStopped\<rparr>)"

text \<open>A read from the channel of \<^verbatim>\<open>Results\<close>.\<close>

inductive receive_step :: "('t, 'r) Pool \<Rightarrow> ('t, 'r) Pool \<Rightarrow> bool" where
  receive: "results p = x # xs \<Longrightarrow> receive_step p (p\<lparr>results := xs, delivered := x # delivered p\<rparr>)"

text \<open>What happens without new calls, and everything that happens.\<close>

definition internal_step :: "('t, 'r) Pool \<Rightarrow> ('t, 'r) Pool \<Rightarrow> bool" where
  "internal_step p q \<longleftrightarrow> worker_step p q \<or> closer_step p q \<or> receive_step p q"

definition pool_step :: "('t, 'r) Pool \<Rightarrow> ('t, 'r) Pool \<Rightarrow> bool" where
  "pool_step p q \<longleftrightarrow> internal_step p q \<or> submit_step p q \<or> shutdown_step p q"

inductive pool_reach :: "nat \<Rightarrow> ('t, 'r) Pool \<Rightarrow> bool" for n where
  pool_new: "New_pool (int n) = Inr p \<Longrightarrow> pool_reach n p"
| pool_then: "pool_reach n p \<Longrightarrow> pool_step p q \<Longrightarrow> pool_reach n q"

section \<open>No task is lost\<close>

primrec in_hand :: "('t, 'r) worker_at \<Rightarrow> 't multiset" where
  "in_hand Selecting = {#}"
| "in_hand Draining = {#}"
| "in_hand (Handling t b) = {#t#}"
| "in_hand (Sending t r b) = {#t#}"
| "in_hand Exited = {#}"

definition in_hands :: "('t, 'r) Pool \<Rightarrow> 't multiset" where
  "in_hands p = sum_list (map in_hand (pool_workers p))"

definition pool_inv :: "nat \<Rightarrow> ('t, 'r) Pool \<Rightarrow> bool" where
  "pool_inv n p \<longleftrightarrow> pool_size p = n \<and> length (tasks p) \<le> n \<and> length (results p) \<le> n
     \<and> (pool_done p \<longleftrightarrow> pool_closer p \<noteq> NotStarted)
     \<and> (results_closed p \<longrightarrow> (\<forall>w \<in> set (pool_workers p). w = Exited))
     \<and> mset (accepted p) = mset (tasks p) + in_hands p + mset (map fst (results p)) + mset (map fst (delivered p))"

lemma move_simps [simp]:
  "pool_size (move i w p) = pool_size p" "tasks (move i w p) = tasks p" "results (move i w p) = results p"
  "pool_done (move i w p) = pool_done p" "pool_closer (move i w p) = pool_closer p" "accepted (move i w p) = accepted p"
  "delivered (move i w p) = delivered p" "results_closed (move i w p) = results_closed p"
  by (simp_all add: move_def results_closed_def)

lemma in_hands_move: "at i w p \<Longrightarrow> in_hands (move i v p) + in_hand w = in_hands p + in_hand v"
  by (auto simp: in_hands_def move_def at_def sum_list_map_update)

lemma in_hands_fields [simp]:
  "in_hands (p\<lparr>tasks := x\<rparr>) = in_hands p" "in_hands (p\<lparr>results := y\<rparr>) = in_hands p"
  "in_hands (p\<lparr>submitting := z\<rparr>) = in_hands p" "in_hands (p\<lparr>accepted := u\<rparr>) = in_hands p"
  "in_hands (p\<lparr>delivered := v\<rparr>) = in_hands p" "in_hands (p\<lparr>pool_done := a\<rparr>) = in_hands p"
  "in_hands (p\<lparr>pool_closer := b\<rparr>) = in_hands p" "in_hands (p\<lparr>canceled := c\<rparr>) = in_hands p"
  by (simp_all add: in_hands_def)

lemma at_fields [simp]: "at i w (p\<lparr>tasks := x\<rparr>) = at i w p" "at i w (p\<lparr>results := y\<rparr>) = at i w p"
  by (simp_all add: at_def)

text \<open>A worker that is not gone keeps the channel of results open.\<close>

lemma busy_open: "pool_inv n p \<Longrightarrow> at i w p \<Longrightarrow> w \<noteq> Exited \<Longrightarrow> \<not> results_closed p"
  by (auto simp: pool_inv_def at_def)

lemma worker_step_inv:
  assumes "worker_step p q" and "pool_inv n p"
  shows "pool_inv n q"
  using assms
proof cases
  case (see_done i)
  then show ?thesis using assms(2) busy_open [OF assms(2)] in_hands_move [OF see_done(2), of Draining] by (auto simp: pool_inv_def)
next
  case (take_task i t ts)
  then show ?thesis
    using assms(2) busy_open [OF assms(2)] in_hands_move [of i Selecting "p\<lparr>tasks := ts\<rparr>" "Handling t False"]
    by (auto simp: pool_inv_def results_closed_def)
next
  case (drain_task i t ts)
  then show ?thesis
    using assms(2) busy_open [OF assms(2)] in_hands_move [of i Draining "p\<lparr>tasks := ts\<rparr>" "Handling t True"]
    by (auto simp: pool_inv_def results_closed_def)
next
  case (drain_end i)
  then show ?thesis using assms(2) busy_open [OF assms(2)] in_hands_move [OF drain_end(2), of Exited] by (auto simp: pool_inv_def)
next
  case (handled i t b zero stack out)
  then show ?thesis
    using assms(2) busy_open [OF assms(2)] in_hands_move [OF handled(2), of "Sending t (handleTask zero stack out) b"]
    by (auto simp: pool_inv_def)
next
  case (send_result i t r b)
  let ?p = "p\<lparr>results := results p @ [(t, r)]\<rparr>"
  have "in_hands (move i (if b then Draining else Selecting) ?p) + {#t#} = in_hands p"
    using in_hands_move [of i "Sending t r b" ?p "if b then Draining else Selecting"] send_result(2) by auto
  moreover have "\<not> results_closed ?p" using send_result(4) by (simp add: results_closed_def)
  ultimately show ?thesis using assms(2) send_result by (auto simp: pool_inv_def)
qed

lemma pool_step_inv:
  assumes "pool_step p q" and "pool_inv n p"
  shows "pool_inv n q"
proof -
  from assms(1) consider "worker_step p q" | "closer_step p q" | "receive_step p q" | "submit_step p q" | "shutdown_step p q"
    by (auto simp: pool_step_def internal_step_def)
  then show ?thesis
  proof cases
    case 1
    then show ?thesis using assms(2) worker_step_inv by blast
  qed (use assms(2) in \<open>auto simp: pool_inv_def results_closed_def elim!: closer_step.cases receive_step.cases
      submit_step.cases shutdown_step.cases\<close>)
qed

lemma sum_list_replicate_mset: "sum_list (replicate n {#}) = {#}"
  by (induction n) simp_all

lemma New_pool_inv: "New_pool (int n) = Inr (p :: ('t, 'r) Pool) \<Longrightarrow> pool_inv n p"
  by (auto simp: New_pool_def pool_inv_def results_closed_def in_hands_def sum_list_replicate_mset)

lemma pool_reach_inv: "pool_reach n p \<Longrightarrow> pool_inv n p"
  by (induction rule: pool_reach.induct) (auto intro: New_pool_inv pool_step_inv)

text \<open>C14. The pool accounts for every accepted task in every reachable state, under any interleaving of
  submitters, workers, readers and shutdowns: each task for which \<^verbatim>\<open>Submit\<close> has returned nil is exactly
  once queued, in the hands of a worker, among the results or among the results already read; the
  channels stay within their capacity; and the results channel is closed only after the last worker
  has gone, so that no worker sends on a closed channel.\<close>

theorem pool_accounts_for_every_task:
  assumes "pool_reach n p"
  shows "mset (accepted p) = mset (tasks p) + in_hands p + mset (map fst (results p)) + mset (map fst (delivered p))
    \<and> length (tasks p) \<le> n \<and> length (results p) \<le> n
    \<and> (results_closed p \<longrightarrow> (\<forall>w \<in> set (pool_workers p). w = Exited))"
  using pool_reach_inv [OF assms] by (simp add: pool_inv_def)

section \<open>Shutting down\<close>

text \<open>How much is left to do without new calls.\<close>

primrec worker_load :: "('t, 'r) worker_at \<Rightarrow> nat" where
  "worker_load Selecting = 2"
| "worker_load Draining = 1"
| "worker_load (Handling t b) = (if b then 4 else 5)"
| "worker_load (Sending t r b) = (if b then 3 else 4)"
| "worker_load Exited = 0"

primrec closer_load :: "closer \<Rightarrow> nat" where
  "closer_load NotStarted = 4"
| "closer_load WaitingForWorkers = 3"
| "closer_load ClosedResults = 2"
| "closer_load CanceledContext = 1"
| "closer_load ClosedStopped = 0"

definition load :: "('t, 'r) Pool \<Rightarrow> nat" where
  "load p = 4 * length (tasks p) + sum_list (map worker_load (pool_workers p)) + length (results p) + closer_load (pool_closer p)"

lemma load_move: "at i w p \<Longrightarrow> load (move i v p) + worker_load w = load p + worker_load v"
  using sum_list_map_update [of i "pool_workers p" worker_load v] by (auto simp: load_def move_def at_def)

lemma load_fields:
  "load (p\<lparr>tasks := ts\<rparr>) + 4 * length (tasks p) = load p + 4 * length ts"
  "load (p\<lparr>results := rs\<rparr>) + length (results p) = load p + length rs"
  by (simp_all add: load_def)

lemma internal_step_load:
  assumes "internal_step p q"
  shows "load q < load p"
proof -
  from assms consider "worker_step p q" | "closer_step p q" | "receive_step p q" by (auto simp: internal_step_def)
  then show ?thesis
  proof cases
    case 1
    then show ?thesis
    proof cases
      case (see_done i)
      then show ?thesis using load_move [OF see_done(2), of Draining] by simp
    next
      case (take_task i t ts)
      then show ?thesis using load_move [of i Selecting "p\<lparr>tasks := ts\<rparr>" "Handling t False"] load_fields(1) [of ts p] by simp
    next
      case (drain_task i t ts)
      then show ?thesis using load_move [of i Draining "p\<lparr>tasks := ts\<rparr>" "Handling t True"] load_fields(1) [of ts p] by simp
    next
      case (drain_end i)
      then show ?thesis using load_move [OF drain_end(2), of Exited] by simp
    next
      case (handled i t b zero stack out)
      then show ?thesis using load_move [OF handled(2), of "Sending t (handleTask zero stack out) b"] by (simp split: if_splits)
    next
      case (send_result i t r b)
      let ?rs = "results p @ [(t, r)]"
      show ?thesis using send_result load_move [of i "Sending t r b" "p\<lparr>results := ?rs\<rparr>" "if b then Draining else Selecting"]
        load_fields(2) [of ?rs p] by (simp split: if_splits)
    qed
  qed (auto simp: load_def elim!: closer_step.cases receive_step.cases)
qed

text \<open>A pool that is shutting down and has not stopped can move by itself.\<close>

lemma shutdown_progress:
  assumes "pool_inv n p" and "pool_done p" and "\<not> stopped p"
  shows "\<exists>q. internal_step p q"
proof (cases "\<forall>w \<in> set (pool_workers p). w = Exited")
  case True
  then show ?thesis using assms
    by (cases "pool_closer p") (auto simp: pool_inv_def stopped_def internal_step_def intro: closer_step.intros)
next
  case False
  then obtain i w where i: "at i w p" "w \<noteq> Exited" by (auto simp: at_def in_set_conv_nth)
  note open_results = busy_open [OF assms(1) i]
  show ?thesis
  proof (cases w)
    case Selecting
    then show ?thesis using see_done [of i p] i assms(2) by (auto simp: internal_step_def)
  next
    case Draining
    then show ?thesis using drain_task [of i p] drain_end [of i p] i by (cases "tasks p") (auto simp: internal_step_def)
  next
    case (Handling t b)
    then show ?thesis using handled [of i t b p] i by (auto simp: internal_step_def)
  next
    case (Sending t r b)
    show ?thesis
    proof (cases "length (results p) < pool_size p")
      case True
      then show ?thesis using send_result [of i t r b p] Sending i open_results by (auto simp: internal_step_def)
    next
      case full: False
      then have "results p \<noteq> []" using i(1) by (auto simp: at_def)
      then obtain x xs where "results p = x # xs" by (cases "results p") auto
      then show ?thesis using receive [of p x xs] by (auto simp: internal_step_def)
    qed
  qed (use i in simp)
qed

lemma internal_keeps_done: "internal_step p q \<Longrightarrow> pool_done p \<Longrightarrow> pool_done q"
  by (auto simp: internal_step_def move_def elim!: worker_step.cases closer_step.cases receive_step.cases)

text \<open>C15. Shutting down terminates. From every reachable state the pool can take only finitely many steps
  without a new call, and once \<^verbatim>\<open>Shutdown\<close> has been called, as long as handlers return and results are
  read, it cannot get stuck before it has stopped: every such run can be continued to a state in which
  \<^verbatim>\<open>stopped\<close> is closed, where the workers are gone and every accepted task that was not left in the
  queue has a result, read or waiting to be read.\<close>

theorem pool_shutdown_terminates:
  assumes "pool_reach n p" and "pool_done p"
  shows "\<not> (\<exists>f. f 0 = p \<and> (\<forall>i. internal_step (f i) (f (Suc i))))
    \<and> (\<exists>q. internal_step\<^sup>*\<^sup>* p q \<and> stopped q)
    \<and> (\<forall>q. internal_step\<^sup>*\<^sup>* p q \<and> (\<nexists>q'. internal_step q q') \<longrightarrow> stopped q \<and> (\<forall>w \<in> set (pool_workers q). w = Exited)
          \<and> mset (accepted q) = mset (tasks q) + mset (map fst (results q)) + mset (map fst (delivered q)))"
proof -
  have inv: "pool_inv n q \<and> pool_done q" if "internal_step\<^sup>*\<^sup>* p q" for q
    using that pool_reach_inv [OF assms(1)] assms(2)
    by (induction rule: rtranclp_induct) (auto simp: pool_step_def intro: pool_step_inv internal_keeps_done)
  have "\<not> (\<exists>f. f 0 = p \<and> (\<forall>i. internal_step (f i) (f (Suc i))))"
  proof
    assume "\<exists>f. f 0 = p \<and> (\<forall>i. internal_step (f i) (f (Suc i)))"
    then obtain f :: "nat \<Rightarrow> ('a, 'b) Pool" where f: "\<forall>i. internal_step (f i) (f (Suc i))" by blast
    then have "\<forall>i. load (f (Suc i)) < load (f i)" using internal_step_load by blast
    then show False using wf_iff_no_infinite_down_chain [of "measure load"] wf_measure by auto
  qed
  moreover have "\<exists>q. internal_step\<^sup>*\<^sup>* p q \<and> stopped q"
  proof -
    have "pool_inv n r \<Longrightarrow> pool_done r \<Longrightarrow> \<exists>q. internal_step\<^sup>*\<^sup>* r q \<and> stopped q" for r :: "('a, 'b) Pool"
    proof (induction r rule: measure_induct_rule [of load])
      case (less r)
      show ?case
      proof (cases "stopped r")
        case False
        then obtain r' where r': "internal_step r r'" using shutdown_progress [OF less.prems] by blast
        then have "pool_inv n r'" "pool_done r'" "load r' < load r"
          using pool_step_inv less.prems internal_keeps_done internal_step_load by (auto simp: pool_step_def)
        then show ?thesis using less.IH r' by (meson converse_rtranclp_into_rtranclp)
      qed blast
    qed
    then show ?thesis using pool_reach_inv [OF assms(1)] assms(2) by blast
  qed
  moreover have "stopped q \<and> (\<forall>w \<in> set (pool_workers q). w = Exited)
      \<and> mset (accepted q) = mset (tasks q) + mset (map fst (results q)) + mset (map fst (delivered q))"
    if "internal_step\<^sup>*\<^sup>* p q" "\<nexists>q'. internal_step q q'" for q
  proof -
    have stop: "stopped q" using shutdown_progress inv [OF that(1)] that(2) by blast
    then have gone: "\<forall>w \<in> set (pool_workers q). w = Exited"
      using inv [OF that(1)] by (auto simp: pool_inv_def results_closed_def stopped_def)
    then have "map in_hand (pool_workers q) = map (\<lambda>_. {#}) (pool_workers q)" by auto
    then have "in_hands q = {#}" unfolding in_hands_def by (simp add: map_replicate_const sum_list_replicate_mset)
    then show ?thesis using stop gone inv [OF that(1)] by (simp add: pool_inv_def)
  qed
  ultimately show ?thesis by blast
qed

section \<open>A run\<close>

lemma pool_reach_via:
  "pool_reach n p \<Longrightarrow> worker_step p q \<Longrightarrow> q = q' \<Longrightarrow> pool_reach n q'"
  "pool_reach n p \<Longrightarrow> closer_step p q \<Longrightarrow> q = q' \<Longrightarrow> pool_reach n q'"
  "pool_reach n p \<Longrightarrow> submit_step p q \<Longrightarrow> q = q' \<Longrightarrow> pool_reach n q'"
  "pool_reach n p \<Longrightarrow> shutdown_step p q \<Longrightarrow> q = q' \<Longrightarrow> pool_reach n q'"
  by (auto simp: pool_step_def internal_step_def intro: pool_then)

text \<open>A pool of one worker: one submitter past its first check, then a shutdown.\<close>

definition closing_pool :: "'t \<Rightarrow> ('t, 'r) Pool" where
  "closing_pool t = \<lparr>pool_workers = [Selecting], tasks = [], results = [], pool_done = True,
     pool_closer = WaitingForWorkers, canceled = False, submitting = [t], accepted = [], delivered = []\<rparr>"

lemma closing_pool_reach: "pool_reach 1 (closing_pool t :: ('t, 'r) Pool)"
proof -
  let ?p = "\<lparr>pool_workers = [Selecting], tasks = [], results = [], pool_done = False,
     pool_closer = NotStarted, canceled = False, submitting = [], accepted = [], delivered = []\<rparr> :: ('t, 'r) Pool"
  have "pool_reach 1 ?p" by (intro pool_new) (simp add: New_pool_def)
  moreover have "submit_step ?p (?p\<lparr>submitting := t # submitting ?p\<rparr>)" by (rule submit_checked) simp
  ultimately have "pool_reach 1 (?p\<lparr>submitting := t # submitting ?p\<rparr>)" by (rule pool_reach_via(3)) (rule refl)
  then show ?thesis
    by (rule pool_reach_via(4) [OF _ shutdown_once]) (simp_all add: closing_pool_def)
qed

definition stranded_pool :: "'t \<Rightarrow> ('t, 'r) Pool" where
  "stranded_pool t = \<lparr>pool_workers = [Exited], tasks = [t], results = [], pool_done = True,
     pool_closer = ClosedStopped, canceled = True, submitting = [], accepted = [t], delivered = []\<rparr>"

lemma stranded_pool_reach: "pool_reach 1 (stranded_pool t :: ('t, 'r) Pool)"
proof -
  let ?p = "closing_pool t :: ('t, 'r) Pool"
  let ?p1 = "?p\<lparr>pool_workers := [Draining]\<rparr>" and ?p2 = "?p\<lparr>pool_workers := [Exited]\<rparr>"
  let ?p3 = "?p2\<lparr>pool_closer := ClosedResults\<rparr>" and ?p5 = "?p2\<lparr>canceled := True, pool_closer := ClosedStopped\<rparr>"
  let ?p4 = "?p2\<lparr>canceled := True, pool_closer := CanceledContext\<rparr>"
  have "pool_reach 1 ?p1"
    by (rule pool_reach_via(1) [OF closing_pool_reach see_done [of 0]]) (simp_all add: at_def move_def closing_pool_def)
  then have "pool_reach 1 ?p2"
    by (rule pool_reach_via(1) [OF _ drain_end [of 0]]) (simp_all add: at_def move_def closing_pool_def)
  then have "pool_reach 1 ?p3" by (rule pool_reach_via(2) [OF _ close_results]) (simp_all add: closing_pool_def)
  then have "pool_reach 1 ?p4" by (rule pool_reach_via(2) [OF _ cancel_context]) (simp_all add: closing_pool_def)
  then have "pool_reach 1 ?p5" by (rule pool_reach_via(2) [OF _ close_stopped]) (simp_all add: closing_pool_def)
  then show ?thesis
    by (rule pool_reach_via(3) [OF _ submit_sent [of t]]) (simp_all add: closing_pool_def stranded_pool_def)
qed

theorem pool_accounts_for_every_task_witness:
  "pool_reach 1 (stranded_pool CHR ''t'' :: (char, nat) Pool)
     \<and> mset (accepted (stranded_pool CHR ''t'' :: (char, nat) Pool)) = {#CHR ''t''#}"
  using pool_accounts_for_every_task [OF stranded_pool_reach, of "CHR ''t''"] stranded_pool_reach
  by (auto simp: stranded_pool_def)

theorem pool_shutdown_terminates_witness:
  "\<exists>q. internal_step\<^sup>*\<^sup>* (closing_pool CHR ''t'' :: (char, nat) Pool) q \<and> stopped q"
  using pool_shutdown_terminates [OF closing_pool_reach, of "CHR ''t''"] by (auto simp: closing_pool_def)

text \<open>C34. An accepted task may never be handled. \<^verbatim>\<open>Submit\<close> chooses at random among the ready cases of its
  second select: a caller that passed the first check before the shutdown may still put its task into
  the queue, and return nil, after the last worker has drained the queue and gone. There is a reachable
  state in which the pool has stopped, the task is accepted, and nothing will ever happen to it.\<close>

theorem pool_may_strand_task:
  "\<exists>p :: ('t, 'r) Pool. pool_reach 1 p \<and> stopped p \<and> accepted p = [t] \<and> tasks p = [t] \<and> results p = []
     \<and> delivered p = [] \<and> (\<nexists>q. internal_step p q)"
proof -
  let ?p = "stranded_pool t :: ('t, 'r) Pool"
  have "\<not> internal_step ?p q" for q
    by (auto simp: internal_step_def stranded_pool_def at_def elim!: worker_step.cases closer_step.cases receive_step.cases)
  then show ?thesis
    using stranded_pool_reach by (intro exI [of _ ?p]) (auto simp: stranded_pool_def stopped_def)
qed

end
