(* ===== verification/Transport.thy ===== *)
theory Transport
  imports Memory
begin

text \<open>
  What the two transports call: the interface \<^verbatim>\<open>sagaService\<close> of \<^verbatim>\<open>httpserver/server.go\<close>, which the gRPC
  server uses by its type, as a record of operations, and the service of \<open>Service\<close> as its provider.
\<close>

record 'w sagaService =
  svc_StartSagaWithIdempotencyKey :: "string \<Rightarrow> string \<Rightarrow> byte list \<Rightarrow> StartSagaStep list \<Rightarrow> 'w \<Rightarrow> (error + string) \<times> 'w"
  svc_GetSaga :: "string \<Rightarrow> 'w \<Rightarrow> error + Saga"
  svc_CancelSaga :: "string \<Rightarrow> 'w \<Rightarrow> (error + Saga) \<times> 'w"
  svc_ListSagas :: "string \<Rightarrow> int \<Rightarrow> int \<Rightarrow> 'w \<Rightarrow> error + Saga list"

text \<open>What one request meets: its contexts, the clocks, the random bytes, the events of the watchdog.\<close>

record request_env =
  env_unmarshal :: "byte list \<Rightarrow> error + context_map"
  env_rand :: "error + byte list"
  env_now :: time
  env_ctx :: ctx
  env_ctx' :: ctx
  env_deadline :: "time option"
  env_watchdog :: "watchdog_event list"

definition live_env :: "request_env \<Rightarrow> bool" where
  "live_env e \<longleftrightarrow> env_ctx e = live \<and> env_ctx' e = live \<and> (\<exists>n. env_watchdog e = replicate n Tick @ [LockCtxDone Canceled])"

definition service_api ::
  "request_env \<Rightarrow> ('s, 'z) sagaStore_scheme option \<Rightarrow> ('l, 'h) sagaLocker \<Rightarrow> ('l \<times> 's) sagaService" where
  "service_api e store sl =
     \<lparr>svc_StartSagaWithIdempotencyKey = (\<lambda>workflow key raw steps (l, s).
        case StartSagaWithIdempotencyKey store (env_unmarshal e) (env_rand e) (env_now e) (env_ctx e) (env_ctx' e)
          workflow key raw steps s of (r, s') \<Rightarrow> (r, (l, s'))),
      svc_GetSaga = (\<lambda>sagaID (l, s). GetSaga store (env_ctx e) sagaID s),
      svc_CancelSaga = (\<lambda>sagaID (l, s).
        case CancelSaga store sl (env_now e) (env_deadline e) (env_ctx e) (env_watchdog e) (env_ctx' e) (env_now e)
          (env_now e) sagaID l s of (r, l', s') \<Rightarrow> (r, (l', s'))),
      svc_ListSagas = (\<lambda>status limit offset (l, s). ListSagas store (env_ctx e) status limit offset s)\<rparr>"

section \<open>The service over the in-memory store\<close>

lemma api_get:
  assumes "memory_inv m" and "env_ctx e = live"
  shows "svc_GetSaga (service_api e (Some memory_store) sl) i (l, m)
    = (case memory_lookup m i of None \<Rightarrow> Inl (Sentinel (ServiceErr ErrSagaNotFound)) | Some g \<Rightarrow> Inr g)"
  using assms memory_live.get_live [OF assms(1)] memory_live.get_live_missing [OF assms(1)]
  by (cases "memory_lookup m i") (simp_all add: service_api_def GetSaga_def mapStoreError_def)

lemma api_cancel:
  assumes "memory_inv m" and "live_env e"
  obtains "memory_lookup m i = None"
      "svc_CancelSaga (service_api e (Some memory_store) (newSagaLocker h None ttl)) i (l, m)
        = (Inl (Sentinel (ServiceErr ErrSagaNotFound)), (l, m))"
    | g where "memory_lookup m i = Some g" "Status g = SagaStatusFailed"
      "svc_CancelSaga (service_api e (Some memory_store) (newSagaLocker h None ttl)) i (l, m)
        = (Inl (Sentinel (ServiceErr ErrSagaCancelNotAllowed)), (l, m))"
    | g g' m' where "memory_lookup m i = Some g" "Status g \<noteq> SagaStatusFailed"
      "svc_CancelSaga (service_api e (Some memory_store) (newSagaLocker h None ttl)) i (l, m) = (Inr g', (l, m'))"
      "memory_inv m'" "memory_lookup m' = (memory_lookup m)(i \<mapsto> g')"
proof -
  obtain n where e: "env_ctx' e = live" "env_watchdog e = replicate n Tick @ [LockCtxDone Canceled]"
    using assms(2) by (auto simp: live_env_def)
  let ?upd = "store_Update memory_store live (env_now e) i (cancelCandidate (env_now e)) m"
  have api: "svc_CancelSaga (service_api e (Some memory_store) (newSagaLocker h None ttl)) i (l, m)
      = (case ?upd of (Inl err, s') \<Rightarrow> (Inl (mapStoreError err), (l, s')) | (Inr g, s') \<Rightarrow> (Inr g, (l, s')))"
    by (simp add: service_api_def e memory_live.cancel_noop split: prod.splits sum.splits)
  show thesis
  proof (cases "memory_lookup m i")
    case None
    then show thesis using that(1) api memory_live.update_live_missing [OF assms(1) None]
      by (simp add: mapStoreError_def)
  next
    case (Some g)
    show thesis
    proof (cases "cancelCandidate (env_now e) g")
      case (Inl err)
      then show thesis
        using that(2) [OF Some] api memory_live.update_live_refused [where fn = "cancelCandidate (env_now e)", OF assms(1) Some Inl]
        by (auto simp: cancelCandidate_error mapStoreError_def)
    next
      case (Inr g')
      have st: "Status g \<noteq> SagaStatusFailed" using Inr by (auto simp: cancelCandidate_def)
      obtain s' where s': "?upd = (Inr (Clone (g'\<lparr>UpdatedAt := env_now e\<rparr>)), s')"
        "memory_lookup s' = (memory_lookup m)(i \<mapsto> Clone (g'\<lparr>UpdatedAt := env_now e\<rparr>))"
        using memory_live.cancel_live [OF assms(1) Some Inr] by blast
      have "memory_inv s'"
        using memory.update_ok [OF assms(1) s'(1) cancelCandidate_frame [of "env_now e"]] by blast
      then show thesis using that(3) [OF Some st] api s' by simp
    qed
  qed
qed

end
