(* ===== verification/Http_Server.thy ===== *)
theory Http_Server
  imports Transport
begin

text \<open>
  \<^verbatim>\<open>internal/transport/httpserver/server.go\<close>: the handlers behind the generated router, on decoded
  requests. The responses are the generated response types; \<^verbatim>\<open>json.Marshal\<close> is an argument.
\<close>

record openapi_SagaStep =
  oa_step_Name :: string
  oa_step_Status :: string
  oa_Attempt :: int
  oa_StartedAt :: "time option"
  oa_FinishedAt :: "time option"
  oa_Error :: "string option"
  oa_step_GrpcTarget :: "string option"

record openapi_Saga =
  oa_Id :: string
  oa_Workflow :: string
  oa_Status :: string
  oa_Context :: context_map
  oa_Steps :: "openapi_SagaStep list"
  oa_CreatedAt :: "time option"
  oa_UpdatedAt :: "time option"

record openapi_StartSagaStep =
  oa_Name :: string
  oa_GrpcTarget :: string

record StartSagaBody =
  body_Workflow :: string
  body_IdempotencyKey :: "string option"
  body_Context :: "context_map option"
  body_Steps :: "openapi_StartSagaStep list"

datatype http_response =
    Healthz200JSONResponse string
  | StartSaga202JSONResponse string | StartSaga400JSONResponse string | StartSaga500JSONResponse string
  | ListSagas200JSONResponse "openapi_Saga list" | ListSagas400JSONResponse string | ListSagas500JSONResponse string
  | GetSaga200JSONResponse openapi_Saga | GetSaga404JSONResponse string | GetSaga500JSONResponse string
  | CancelSaga202JSONResponse openapi_Saga | CancelSaga404JSONResponse string
  | CancelSaga409JSONResponse string | CancelSaga500JSONResponse string

section \<open>Mapping\<close>

definition http_copyTime :: "time option \<Rightarrow> time option" where
  "http_copyTime ts = (case ts of None \<Rightarrow> None | Some t \<Rightarrow> Some t)"

definition copyString :: "string \<Rightarrow> string option" where
  "copyString value = (if value = '''' then None else Some value)"

definition http_mapStep :: "SagaStep \<Rightarrow> openapi_SagaStep" where
  "http_mapStep step = \<lparr>oa_step_Name = step_Name step, oa_step_Status = step_status_string (step_Status step),
     oa_Attempt = uint (Attempt step), oa_StartedAt = http_copyTime (StartedAt step),
     oa_FinishedAt = http_copyTime (FinishedAt step), oa_Error = copyString (step_Error step),
     oa_step_GrpcTarget = copyString (GRPCTarget step)\<rparr>"

definition http_mapSaga :: "Saga \<Rightarrow> openapi_Saga" where
  "http_mapSaga saga = \<lparr>oa_Id = ID saga, oa_Workflow = Workflow saga, oa_Status = saga_status_string (Status saga),
     oa_Context = Context saga, oa_Steps = MapSagaSteps (Steps saga) http_mapStep,
     oa_CreatedAt = Some (CreatedAt saga), oa_UpdatedAt = Some (UpdatedAt saga)\<rparr>"

definition http_mapStartSagaSteps :: "openapi_StartSagaStep list \<Rightarrow> StartSagaStep list" where
  "http_mapStartSagaSteps steps =
     MapStartSagaSteps steps (\<lambda>step. \<lparr>start_Name = oa_Name step, start_GRPCTarget = oa_GrpcTarget step\<rparr>)"

section \<open>Handlers\<close>

definition Healthz :: http_response where
  "Healthz = Healthz200JSONResponse ''ok''"

definition HTTP_StartSaga ::
  "(context_map \<Rightarrow> error + byte list) \<Rightarrow> 'w sagaService \<Rightarrow> StartSagaBody option \<Rightarrow> 'w \<Rightarrow> http_response \<times> 'w" where
  "HTTP_StartSaga marshal svc request w =
     (case request of
        None \<Rightarrow> (StartSaga400JSONResponse ''invalid request body'', w)
      | Some body \<Rightarrow>
        let sagaContext = (case body_Context body of None \<Rightarrow> Some Map.empty | Some c \<Rightarrow> c)
        in case marshal sagaContext of
             Inl _ \<Rightarrow> (StartSaga400JSONResponse ''context must be valid JSON'', w)
           | Inr payload \<Rightarrow>
             let idempotencyKey = (case body_IdempotencyKey body of None \<Rightarrow> '''' | Some k \<Rightarrow> k)
             in case svc_StartSagaWithIdempotencyKey svc (body_Workflow body) idempotencyKey payload
                       (http_mapStartSagaSteps (body_Steps body)) w of
                  (Inl startErr, w') \<Rightarrow>
                    (if errors_Is startErr (ServiceErr ErrInvalidWorkflow) \<or> errors_Is startErr (ServiceErr ErrInvalidContext)
                        \<or> errors_Is startErr (ServiceErr ErrStepsRequired) \<or> errors_Is startErr (ServiceErr ErrInvalidStepName)
                        \<or> errors_Is startErr (ServiceErr ErrInvalidStepGRPCTarget)
                     then StartSaga400JSONResponse (error_text startErr) else StartSaga500JSONResponse (error_text startErr), w')
                | (Inr sagaID, w') \<Rightarrow> (StartSaga202JSONResponse sagaID, w'))"

definition HTTP_ListSagas ::
  "'w sagaService \<Rightarrow> string option \<Rightarrow> int option \<Rightarrow> int option \<Rightarrow> 'w \<Rightarrow> http_response" where
  "HTTP_ListSagas svc statusParam limitParam offsetParam w =
     (let status = (case statusParam of None \<Rightarrow> '''' | Some x \<Rightarrow> x);
          limit = (case limitParam of None \<Rightarrow> 0 | Some x \<Rightarrow> x);
          offset = (case offsetParam of None \<Rightarrow> 0 | Some x \<Rightarrow> x)
      in case svc_ListSagas svc status limit offset w of
           Inl err \<Rightarrow>
             if errors_Is err (ServiceErr ErrInvalidStatusFilter) \<or> errors_Is err (ServiceErr ErrInvalidPagination)
             then ListSagas400JSONResponse (error_text err) else ListSagas500JSONResponse (error_text err)
         | Inr listed \<Rightarrow> ListSagas200JSONResponse (foldl (\<lambda>acc saga. acc @ [http_mapSaga saga]) [] listed))"

definition HTTP_GetSaga :: "'w sagaService \<Rightarrow> string \<Rightarrow> 'w \<Rightarrow> http_response" where
  "HTTP_GetSaga svc sagaID w =
     (case svc_GetSaga svc sagaID w of
        Inl err \<Rightarrow> if errors_Is err (ServiceErr ErrSagaNotFound) then GetSaga404JSONResponse (error_text err)
                   else GetSaga500JSONResponse (error_text err)
      | Inr saga \<Rightarrow> GetSaga200JSONResponse (http_mapSaga saga))"

definition HTTP_CancelSaga :: "'w sagaService \<Rightarrow> string \<Rightarrow> 'w \<Rightarrow> http_response \<times> 'w" where
  "HTTP_CancelSaga svc sagaID w =
     (case svc_CancelSaga svc sagaID w of
        (Inl err, w') \<Rightarrow>
          (if errors_Is err (ServiceErr ErrSagaNotFound) then CancelSaga404JSONResponse (error_text err)
           else if errors_Is err (ServiceErr ErrSagaLockContended) \<or> errors_Is err (ServiceErr ErrSagaCancelNotAllowed)
           then CancelSaga409JSONResponse (error_text err)
           else CancelSaga500JSONResponse (error_text err), w')
      | (Inr saga, w') \<Rightarrow> (CancelSaga202JSONResponse (http_mapSaga saga), w'))"

section \<open>Properties\<close>

text \<open>C37. What the HTTP interface answers about a saga, over the in-memory store with no other worker: a read
  answers 200 with the stored saga or 404, never 500; a cancellation answers 404 for an unknown saga,
  409 for a failed one, both without a change, and otherwise 202 with the saga as it is stored from
  then on and as the next read shows it.\<close>

theorem http_answers_from_store:
  assumes "memory_inv m" and "live_env e"
  shows "HTTP_GetSaga (service_api e (Some memory_store) (newSagaLocker h None ttl)) i (l, m)
      = (case memory_lookup m i of None \<Rightarrow> GetSaga404JSONResponse ''saga not found''
         | Some g \<Rightarrow> GetSaga200JSONResponse (http_mapSaga g))
    \<and> (case memory_lookup m i of
         None \<Rightarrow> HTTP_CancelSaga (service_api e (Some memory_store) (newSagaLocker h None ttl)) i (l, m)
           = (CancelSaga404JSONResponse ''saga not found'', (l, m))
       | Some g \<Rightarrow>
           if Status g = SagaStatusFailed
           then HTTP_CancelSaga (service_api e (Some memory_store) (newSagaLocker h None ttl)) i (l, m)
             = (CancelSaga409JSONResponse ''saga cannot be canceled from current status'', (l, m))
           else \<exists>g' m'. HTTP_CancelSaga (service_api e (Some memory_store) (newSagaLocker h None ttl)) i (l, m)
               = (CancelSaga202JSONResponse (http_mapSaga g'), (l, m'))
             \<and> memory_lookup m' = (memory_lookup m)(i \<mapsto> g')
             \<and> HTTP_GetSaga (service_api e (Some memory_store) (newSagaLocker h None ttl)) i (l, m')
               = GetSaga200JSONResponse (http_mapSaga g'))" (is "?get \<and> ?cancel")
proof
  have ctx: "env_ctx e = live" using assms(2) by (simp add: live_env_def)
  show ?get using api_get [OF assms(1) ctx, of "newSagaLocker h None ttl" i l]
    by (cases "memory_lookup m i") (simp_all add: HTTP_GetSaga_def)
  show ?cancel
  proof (rule api_cancel [OF assms, of i h ttl l])
    fix g g' m'
    assume "memory_lookup m i = Some g" "Status g \<noteq> SagaStatusFailed"
      "svc_CancelSaga (service_api e (Some memory_store) (newSagaLocker h None ttl)) i (l, m) = (Inr g', (l, m'))"
      "memory_inv m'" "memory_lookup m' = (memory_lookup m)(i \<mapsto> g')"
    then show ?cancel
      using api_get [OF _ ctx, of m' "newSagaLocker h None ttl" i l]
      by (auto simp: HTTP_CancelSaga_def HTTP_GetSaga_def intro: exI [of _ g'])
  qed (simp_all add: HTTP_CancelSaga_def)
qed

definition demo_env :: request_env where
  "demo_env = \<lparr>env_unmarshal = (\<lambda>_. Inr (Some Map.empty)), env_rand = Inr [CHR ''a''], env_now = 30, env_ctx = live,
     env_ctx' = live, env_deadline = None, env_watchdog = [LockCtxDone Canceled]\<rparr>"

lemma demo_env_live [simp]: "live_env demo_env"
  unfolding live_env_def demo_env_def by (auto intro!: exI [of _ 0])

theorem http_answers_from_store_witness:
  "HTTP_GetSaga (service_api demo_env (Some memory_store) (newSagaLocker () None 5)) ''zz'' ((), NewMemory)
     = GetSaga404JSONResponse ''saga not found''"
  using http_answers_from_store [OF memory_inv_New demo_env_live, of "()" 5 "''zz''" "()"] by simp

end
