(* ===== verification/Go_Time.thy ===== *)
theory Go_Time
  imports Go_Lib
begin

text \<open>
  \<^verbatim>\<open>t.UTC().Format(time.RFC3339Nano)\<close>: the calendar date of a day number (Gregorian, also before
  1970), the time of day, and the fraction of the second without trailing zeros.
\<close>

definition civil :: "int \<Rightarrow> int \<times> int \<times> int" where
  "civil day =
     (let z = day + 719468; era = z div 146097; doe = z mod 146097;
          yoe = (doe - doe div 1460 + doe div 36524 - doe div 146096) div 365;
          doy = doe - (365 * yoe + yoe div 4 - yoe div 100);
          mp = (5 * doy + 2) div 153;
          d = doy - (153 * mp + 2) div 5 + 1;
          m = (if mp < 10 then mp + 3 else mp - 9);
          y = yoe + era * 400 + (if m \<le> 2 then 1 else 0)
      in (y, m, d))"

text \<open>A number below \<open>10 ^ 19\<close> with at least \<open>w\<close> digits.\<close>

definition padded :: "nat \<Rightarrow> int \<Rightarrow> string" where
  "padded w n =
     (let s = map (\<lambda>k. char_of (48 + \<bar>n\<bar> div 10 ^ k mod 10)) (rev [0..<19])
      in (if n < 0 then ''-'' else '''') @ drop (min (19 - w) (length (takeWhile (\<lambda>c. c = CHR ''0'') s))) s)"

definition nano_fraction :: "int \<Rightarrow> string" where
  "nano_fraction n = (if n = 0 then '''' else CHR ''.'' # rev (dropWhile (\<lambda>c. c = CHR ''0'') (rev (padded 9 n))))"

definition Format_RFC3339Nano :: "time \<Rightarrow> string" where
  "Format_RFC3339Nano t =
     (let sec = t div 1000000000; nano = t mod 1000000000; day = sec div 86400; tod = sec mod 86400;
          (y, m, d) = civil day
      in padded 4 y @ ''-'' @ padded 2 m @ ''-'' @ padded 2 d @ ''T'' @ padded 2 (tod div 3600) @ '':''
         @ padded 2 (tod div 60 mod 60) @ '':'' @ padded 2 (tod mod 60) @ nano_fraction nano @ ''Z'')"

lemma Format_examples:
  "map Format_RFC3339Nano [0, -62135596800000000000, 951782400120000000, 1709251199999999999, -1]
   = [''1970-01-01T00:00:00Z'', ''0001-01-01T00:00:00Z'', ''2000-02-29T00:00:00.12Z'',
      ''2024-02-29T23:59:59.999999999Z'', ''1969-12-31T23:59:59.999999999Z'']"
  by code_simp

end
