(* ===== verification/Grpc_Server.thy ===== *)
theory Grpc_Server
  imports Transport Go_Time
begin

text \<open>
  \<^verbatim>\<open>internal/transport/grpcserver/server.go\<close> and the client library \<^verbatim>\<open>sdk/client.go\<close>. Messages are
  records with the fields of \<^verbatim>\<open>api/proto/saga.proto\<close>; a call of the client library is a call of a stub,
  which the generated code provides; \<^verbatim>\<open>json.Marshal\<close> is an argument.
\<close>

section \<open>Messages\<close>

datatype pb_SagaStatus =
    SAGA_STATUS_UNSPECIFIED | SAGA_STATUS_CREATED | SAGA_STATUS_RUNNING | SAGA_STATUS_COMPLETED
  | SAGA_STATUS_CANCELING | SAGA_STATUS_COMPENSATED | SAGA_STATUS_FAILED

datatype pb_SagaStepStatus =
    SAGA_STEP_STATUS_UNSPECIFIED | SAGA_STEP_STATUS_PENDING | SAGA_STEP_STATUS_RUNNING | SAGA_STEP_STATUS_COMPLETED
  | SAGA_STEP_STATUS_COMPENSATING | SAGA_STEP_STATUS_COMPENSATED | SAGA_STEP_STATUS_FAILED

record pb_SagaStep =
  pb_step_Name :: string
  pb_step_Status :: pb_SagaStepStatus
  pb_Attempt :: "32 word"
  pb_StartedAt :: string
  pb_FinishedAt :: string
  pb_Error :: string
  pb_step_GrpcTarget :: string

record pb_Saga =
  pb_Id :: string
  pb_Workflow :: string
  pb_Status :: pb_SagaStatus
  pb_Context :: "byte list"
  pb_Steps :: "pb_SagaStep list"
  pb_CreatedAt :: string
  pb_UpdatedAt :: string

record pb_StartSagaStep =
  pb_Name :: string
  pb_GrpcTarget :: string

record pb_StartSagaRequest =
  rq_Workflow :: string
  rq_Context :: "byte list"
  rq_Steps :: "pb_StartSagaStep list"
  rq_IdempotencyKey :: string

datatype code = NotFound | Aborted | FailedPrecondition | InvalidArgument | Internal

datatype grpc_status = GStatus code string

section \<open>Mapping\<close>

definition mapError :: "error \<Rightarrow> grpc_status" where
  "mapError err =
     (if errors_Is err (ServiceErr ErrSagaNotFound) then GStatus NotFound (error_text err)
      else if errors_Is err (ServiceErr ErrSagaLockContended) then GStatus Aborted (error_text err)
      else if errors_Is err (ServiceErr ErrSagaCancelNotAllowed) then GStatus FailedPrecondition (error_text err)
      else if errors_Is err (ServiceErr ErrInvalidWorkflow) \<or> errors_Is err (ServiceErr ErrInvalidContext)
           \<or> errors_Is err (ServiceErr ErrStepsRequired) \<or> errors_Is err (ServiceErr ErrInvalidStatusFilter)
           \<or> errors_Is err (ServiceErr ErrInvalidStepName) \<or> errors_Is err (ServiceErr ErrInvalidStepGRPCTarget)
      then GStatus InvalidArgument (error_text err)
      else GStatus Internal ''internal error'')"

text \<open>Logging apart, \<^verbatim>\<open>mapServerError\<close> is \<^verbatim>\<open>mapError\<close>.\<close>

definition mapServerError :: "string \<Rightarrow> error \<Rightarrow> grpc_status" where
  "mapServerError operation err = (let mappedErr = mapError err in mappedErr)"

definition mapSagaStatus :: "SagaStatus \<Rightarrow> pb_SagaStatus" where
  "mapSagaStatus statusValue = (case statusValue of
       SagaStatusCreated \<Rightarrow> SAGA_STATUS_CREATED
     | SagaStatusRunning \<Rightarrow> SAGA_STATUS_RUNNING
     | SagaStatusCompleted \<Rightarrow> SAGA_STATUS_COMPLETED
     | SagaStatusCanceling \<Rightarrow> SAGA_STATUS_CANCELING
     | SagaStatusCompensated \<Rightarrow> SAGA_STATUS_COMPENSATED
     | SagaStatusFailed \<Rightarrow> SAGA_STATUS_FAILED
     | SagaStatusOther _ \<Rightarrow> SAGA_STATUS_UNSPECIFIED)"

definition mapStepStatus :: "SagaStepStatus \<Rightarrow> pb_SagaStepStatus" where
  "mapStepStatus statusValue = (case statusValue of
       SagaStepStatusPending \<Rightarrow> SAGA_STEP_STATUS_PENDING
     | SagaStepStatusRunning \<Rightarrow> SAGA_STEP_STATUS_RUNNING
     | SagaStepStatusCompleted \<Rightarrow> SAGA_STEP_STATUS_COMPLETED
     | SagaStepStatusCompensating \<Rightarrow> SAGA_STEP_STATUS_COMPENSATING
     | SagaStepStatusCompensated \<Rightarrow> SAGA_STEP_STATUS_COMPENSATED
     | SagaStepStatusFailed \<Rightarrow> SAGA_STEP_STATUS_FAILED
     | SagaStepStatusOther _ \<Rightarrow> SAGA_STEP_STATUS_UNSPECIFIED)"

definition grpc_mapStep :: "SagaStep \<Rightarrow> pb_SagaStep" where
  "grpc_mapStep step =
     (let startedAt = (case StartedAt step of None \<Rightarrow> '''' | Some t \<Rightarrow> Format_RFC3339Nano t);
          finishedAt = (case FinishedAt step of None \<Rightarrow> '''' | Some t \<Rightarrow> Format_RFC3339Nano t)
      in \<lparr>pb_step_Name = step_Name step, pb_step_Status = mapStepStatus (step_Status step), pb_Attempt = Attempt step,
          pb_StartedAt = startedAt, pb_FinishedAt = finishedAt, pb_Error = step_Error step,
          pb_step_GrpcTarget = GRPCTarget step\<rparr>)"

definition grpc_mapSaga :: "(context_map \<Rightarrow> error + byte list) \<Rightarrow> Saga \<Rightarrow> error + pb_Saga" where
  "grpc_mapSaga marshal saga =
     (case marshal (Context saga) of
        Inl err \<Rightarrow> Inl (Wrapped (''failed to marshal saga context: '' @ error_text err) err)
      | Inr serializedContext \<Rightarrow>
          Inr \<lparr>pb_Id = ID saga, pb_Workflow = Workflow saga, pb_Status = mapSagaStatus (Status saga),
            pb_Context = serializedContext, pb_Steps = MapSagaSteps (Steps saga) grpc_mapStep,
            pb_CreatedAt = Format_RFC3339Nano (CreatedAt saga), pb_UpdatedAt = Format_RFC3339Nano (UpdatedAt saga)\<rparr>)"

definition grpc_mapStartSagaSteps :: "pb_StartSagaStep list \<Rightarrow> StartSagaStep list" where
  "grpc_mapStartSagaSteps steps =
     (if length steps = 0 then []
      else MapStartSagaSteps steps (\<lambda>step. \<lparr>start_Name = pb_Name step, start_GRPCTarget = pb_GrpcTarget step\<rparr>))"

section \<open>The server\<close>

definition GRPC_StartSaga :: "'w sagaService \<Rightarrow> pb_StartSagaRequest \<Rightarrow> 'w \<Rightarrow> (grpc_status + string) \<times> 'w" where
  "GRPC_StartSaga svc req w =
     (case svc_StartSagaWithIdempotencyKey svc (rq_Workflow req) (rq_IdempotencyKey req) (rq_Context req)
             (grpc_mapStartSagaSteps (rq_Steps req)) w of
        (Inl err, w') \<Rightarrow> (Inl (mapServerError ''StartSaga'' err), w')
      | (Inr sagaID, w') \<Rightarrow> (Inr sagaID, w'))"

definition GRPC_GetSaga ::
  "(context_map \<Rightarrow> error + byte list) \<Rightarrow> 'w sagaService \<Rightarrow> string \<Rightarrow> 'w \<Rightarrow> grpc_status + pb_Saga" where
  "GRPC_GetSaga marshal svc sagaID w =
     (case svc_GetSaga svc sagaID w of
        Inl err \<Rightarrow> Inl (mapServerError ''GetSaga'' err)
      | Inr saga \<Rightarrow>
          (case grpc_mapSaga marshal saga of
             Inl mapErr \<Rightarrow> Inl (mapServerError ''GetSaga'' mapErr)
           | Inr mappedSaga \<Rightarrow> Inr mappedSaga))"

definition GRPC_CancelSaga ::
  "(context_map \<Rightarrow> error + byte list) \<Rightarrow> 'w sagaService \<Rightarrow> string \<Rightarrow> 'w \<Rightarrow> (grpc_status + pb_Saga) \<times> 'w" where
  "GRPC_CancelSaga marshal svc sagaID w =
     (case svc_CancelSaga svc sagaID w of
        (Inl err, w') \<Rightarrow> (Inl (mapServerError ''CancelSaga'' err), w')
      | (Inr saga, w') \<Rightarrow>
          (case grpc_mapSaga marshal saga of
             Inl mapErr \<Rightarrow> (Inl (mapServerError ''CancelSaga'' mapErr), w')
           | Inr mappedSaga \<Rightarrow> (Inr mappedSaga, w')))"

section \<open>The client library\<close>

text \<open>The generated stub; an error of a call is a local one or the status the server sent.\<close>

datatype sdk_error = Local error | Remote grpc_status

record 'w SagaServiceClient =
  stub_StartSaga :: "pb_StartSagaRequest \<Rightarrow> 'w \<Rightarrow> (sdk_error + string) \<times> 'w"
  stub_GetSaga :: "string \<Rightarrow> 'w \<Rightarrow> sdk_error + pb_Saga"
  stub_CancelSaga :: "string \<Rightarrow> 'w \<Rightarrow> (sdk_error + pb_Saga) \<times> 'w"

record sdk_StartSagaStep =
  sdk_Name :: string
  sdk_GRPCTarget :: string

text \<open>\<open>dial\<close> is the outcome of \<^verbatim>\<open>grpc.NewClient\<close>, \<open>stub\<close> what \<^verbatim>\<open>NewSagaServiceClient\<close> makes of a connection.\<close>

definition newClient :: "(string \<Rightarrow> error + 'c) \<Rightarrow> ('c \<Rightarrow> 'w SagaServiceClient) \<Rightarrow> string \<Rightarrow> error + 'c \<times> 'w SagaServiceClient" where
  "newClient dial stub address =
     (case dial address of Inl err \<Rightarrow> Inl err | Inr conn \<Rightarrow> Inr (conn, stub conn))"

definition NewClient :: "(string \<Rightarrow> error + 'c) \<Rightarrow> ('c \<Rightarrow> 'w SagaServiceClient) \<Rightarrow> string \<Rightarrow> error + 'c \<times> 'w SagaServiceClient" where
  "NewClient insecureDial stub address = newClient insecureDial stub address"

definition SDK_StartSagaWithIdempotencyKey ::
  "(context_map \<Rightarrow> error + byte list) \<Rightarrow> 'w SagaServiceClient \<Rightarrow> string \<Rightarrow> string \<Rightarrow> context_map
   \<Rightarrow> sdk_StartSagaStep list \<Rightarrow> 'w \<Rightarrow> (sdk_error + string) \<times> 'w" where
  "SDK_StartSagaWithIdempotencyKey marshal client workflow idempotencyKey sagaContext steps w =
     (let sagaContext = (case sagaContext of None \<Rightarrow> Some Map.empty | Some c \<Rightarrow> Some c)
      in case marshal sagaContext of
           Inl err \<Rightarrow> (Inl (Local err), w)
         | Inr payload \<Rightarrow>
             let mappedSteps = foldl (\<lambda>mapped step. mapped @ [\<lparr>pb_Name = sdk_Name step, pb_GrpcTarget = sdk_GRPCTarget step\<rparr>]) [] steps
             in stub_StartSaga client \<lparr>rq_Workflow = workflow, rq_Context = payload, rq_Steps = mappedSteps,
                  rq_IdempotencyKey = idempotencyKey\<rparr> w)"

definition SDK_StartSaga ::
  "(context_map \<Rightarrow> error + byte list) \<Rightarrow> 'w SagaServiceClient \<Rightarrow> string \<Rightarrow> context_map
   \<Rightarrow> sdk_StartSagaStep list \<Rightarrow> 'w \<Rightarrow> (sdk_error + string) \<times> 'w" where
  "SDK_StartSaga marshal client workflow sagaContext steps w =
     SDK_StartSagaWithIdempotencyKey marshal client workflow '''' sagaContext steps w"

definition SDK_GetSaga :: "'w SagaServiceClient \<Rightarrow> string \<Rightarrow> 'w \<Rightarrow> sdk_error + pb_Saga" where
  "SDK_GetSaga client sagaID w = stub_GetSaga client sagaID w"

definition SDK_CancelSaga :: "'w SagaServiceClient \<Rightarrow> string \<Rightarrow> 'w \<Rightarrow> (sdk_error + pb_Saga) \<times> 'w" where
  "SDK_CancelSaga client sagaID w = stub_CancelSaga client sagaID w"

text \<open>A connection that delivers: the stub's calls run the server's handlers.\<close>

definition connected :: "(context_map \<Rightarrow> error + byte list) \<Rightarrow> 'w sagaService \<Rightarrow> 'w SagaServiceClient" where
  "connected marshal svc =
     \<lparr>stub_StartSaga = (\<lambda>req w. case GRPC_StartSaga svc req w of
        (Inl st, w') \<Rightarrow> (Inl (Remote st), w') | (Inr i, w') \<Rightarrow> (Inr i, w')),
      stub_GetSaga = (\<lambda>i w. case GRPC_GetSaga marshal svc i w of Inl st \<Rightarrow> Inl (Remote st) | Inr g \<Rightarrow> Inr g),
      stub_CancelSaga = (\<lambda>i w. case GRPC_CancelSaga marshal svc i w of
        (Inl st, w') \<Rightarrow> (Inl (Remote st), w') | (Inr g, w') \<Rightarrow> (Inr g, w'))\<rparr>"

section \<open>Properties\<close>

lemma foldl_append_map: "foldl (\<lambda>mapped step. mapped @ [f step]) acc steps = acc @ map f steps"
  by (induction steps arbitrary: acc) simp_all

text \<open>The server sees the steps the client was given.\<close>

lemma sdk_steps_arrive:
  "grpc_mapStartSagaSteps (foldl (\<lambda>mapped step. mapped @ [\<lparr>pb_Name = sdk_Name step, pb_GrpcTarget = sdk_GRPCTarget step\<rparr>]) [] steps)
    = map (\<lambda>s. \<lparr>start_Name = sdk_Name s, start_GRPCTarget = sdk_GRPCTarget s\<rparr>) steps"
  by (simp add: grpc_mapStartSagaSteps_def MapStartSagaSteps_map foldl_append_map)

text \<open>C38. A start through the client library and the gRPC server is a start at the service: over a connection
  that delivers, the service is called once, with the given workflow, key and steps in order and the
  JSON of the context (of the empty object for a nil context), its identifier is returned, and its
  error arrives as the status of the error; an invalid request arrives as \<^verbatim>\<open>InvalidArgument\<close> with the
  service's text, and the text of an internal error never leaves the server.\<close>

theorem sdk_start_is_service_start:
  assumes "marshal (case sagaContext of None \<Rightarrow> Some Map.empty | Some c \<Rightarrow> Some c) = Inr payload"
    and "svc_StartSagaWithIdempotencyKey svc workflow key payload
      (map (\<lambda>s. \<lparr>start_Name = sdk_Name s, start_GRPCTarget = sdk_GRPCTarget s\<rparr>) steps) w = (r, w')"
  shows "SDK_StartSagaWithIdempotencyKey marshal (connected marshal svc) workflow key sagaContext steps w
      = (case r of Inr i \<Rightarrow> Inr i | Inl err \<Rightarrow> Inl (Remote (mapError err)), w')
    \<and> (\<forall>err. r = Inl err \<longrightarrow> (mapError err = GStatus Internal ''internal error''
         \<or> (\<exists>c. c \<noteq> Internal \<and> mapError err = GStatus c (error_text err)))
         \<and> ((\<exists>x \<in> {ErrInvalidWorkflow, ErrInvalidContext, ErrStepsRequired, ErrInvalidStepName, ErrInvalidStepGRPCTarget}.
               err = Sentinel (ServiceErr x)) \<longrightarrow> mapError err = GStatus InvalidArgument (error_text err)))"
proof -
  have "SDK_StartSagaWithIdempotencyKey marshal (connected marshal svc) workflow key sagaContext steps w
      = (case r of Inr i \<Rightarrow> Inr i | Inl err \<Rightarrow> Inl (Remote (mapError err)), w')"
    using assms by (cases r) (simp_all add: SDK_StartSagaWithIdempotencyKey_def connected_def GRPC_StartSaga_def
        sdk_steps_arrive mapServerError_def Let_def)
  then show ?thesis by (auto simp: mapError_def)
qed

theorem sdk_start_is_service_start_witness:
  "SDK_StartSagaWithIdempotencyKey (\<lambda>_. Inr ''{}'')
     (connected (\<lambda>_. Inr ''{}'') \<lparr>svc_StartSagaWithIdempotencyKey = (\<lambda>_ _ _ _ n. (Inr ''7'', n + 1)),
        svc_GetSaga = (\<lambda>_ _. Inl (Opaque '''')), svc_CancelSaga = (\<lambda>_ n. (Inl (Opaque ''''), n)),
        svc_ListSagas = (\<lambda>_ _ _ _. Inr [])\<rparr>) ''w'' ''k'' None [] (0 :: nat) = (Inr ''7'', 1)"
  using sdk_start_is_service_start [of "\<lambda>_. Inr ''{}''" None "''{}''"
      "\<lparr>svc_StartSagaWithIdempotencyKey = (\<lambda>_ _ _ _ n. (Inr ''7'', n + 1)),
        svc_GetSaga = (\<lambda>_ _. Inl (Opaque '''')), svc_CancelSaga = (\<lambda>_ n. (Inl (Opaque ''''), n)),
        svc_ListSagas = (\<lambda>_ _ _ _. Inr [])\<rparr>" "''w''" "''k''" "[]" "0 :: nat" "Inr ''7''" 1]
  by simp

text \<open>Declared statuses stay distinct on the wire.\<close>

lemma mapSagaStatus_inj: "declared_status s \<Longrightarrow> mapSagaStatus s = mapSagaStatus s' \<Longrightarrow> s = s'"
  by (cases s; cases s') (simp_all add: mapSagaStatus_def)

lemma mapStepStatus_inj: "declared_step_status s \<Longrightarrow> mapStepStatus s = mapStepStatus s' \<Longrightarrow> s = s'"
  by (cases s; cases s') (simp_all add: mapStepStatus_def)

end
