(* ===== verification/Spec2Isabelle.thy ===== *)
theory Spec2Isabelle
  imports Main_Program Worker_Pool Http_Server Grpc_Server
begin

text \<open>
  Scipio is a saga orchestrator written in Go. A client starts a saga, a list of steps with a gRPC
  target each; the orchestrator executes the steps in order, one remote call per step, and when the
  saga is cancelled it compensates the executed steps, last one first. This development models the
  program and proves what makes it correct.

  \<^bold>\<open>The program's parts and how they interact.\<close> The transports (\<^verbatim>\<open>internal/transport\<close>) and the client
  library (\<^verbatim>\<open>sdk\<close>) call the service (\<^verbatim>\<open>internal/service/service.go\<close>), which validates requests and
  creates, reads, cancels and lists sagas in a store. The step runner (\<^verbatim>\<open>step_runner.go\<close>) claims steps
  from the store in a loop and gives the claims to a worker pool (\<^verbatim>\<open>pkg/workerpool\<close>); a worker takes
  the lock of the saga (\<^verbatim>\<open>saga_locker.go\<close> over \<^verbatim>\<open>internal/lock\<close>), loads the step, makes the remote call
  (\<^verbatim>\<open>step_dispatcher.go\<close>) and records the result in the store. There are two stores
  (\<^verbatim>\<open>internal/store\<close>): one in memory and one over Postgres. \<^verbatim>\<open>cmd/scipio/main.go\<close> puts the parts
  together from the configuration (\<^verbatim>\<open>internal/config\<close>).

  \<^bold>\<open>Which theory models what.\<close>
  \<^item> \<open>Prelude\<close>, \<open>Go_Lib\<close>, \<open>Go_Time\<close>, \<open>Go_Errors\<close>: Go's integers, instants, the functions of the
    standard library that are called, and error values with \<^verbatim>\<open>errors.Is\<close> and \<^verbatim>\<open>errors.As\<close>.
  \<^item> \<open>Domain\<close>, \<open>Statemachine\<close>: \<^verbatim>\<open>internal/domain\<close> and \<^verbatim>\<open>internal/statemachine\<close>; structs are records,
    the string types of the statuses are datatypes with a constructor for undeclared strings.
  \<^item> \<open>Store_Spec\<close>: the store interfaces as records of operations on a store state, the rule for which
    step may be claimed, and the laws of a store as the locales \<open>saga_store\<close> and \<open>live_store\<close>.
  \<^item> \<open>Saga_Inv\<close>: the well-formedness of a saga and why each kind of change keeps it.
  \<^item> \<open>Saga_Locker\<close>, \<open>Redis_Lock\<close>: the locked section with its renewal watchdog; the Redis locker.
  \<^item> \<open>Service\<close>, \<open>Step_Dispatcher\<close>, \<open>Step_Runner\<close>: the handlers, over any store and locker, with their
    lemmas in the locales of the store laws.
  \<^item> \<open>Memory\<close>: the in-memory store, which interprets \<open>saga_store\<close> and \<open>live_store\<close>.
  \<^item> \<open>Postgres\<close>, \<open>Postgres_Laws\<close>: the Postgres store with its tables, constraints and queries, which
    interprets \<open>saga_store\<close> for every behaviour of the database connection.
  \<^item> \<open>System\<close>: the whole orchestrator as a step relation over any store; any number of requests,
    claims and workers interleave, claims can become stale and be taken again, workers can vanish.
    Its invariant is proved in the locale \<open>saga_store\<close>, so it holds for both stores.
  \<^item> \<open>Liveness\<close>: rounds of claim, dispatch and record, and the work that is left, in the locale
    \<open>exact_store\<close>; \<open>Scenario\<close>: concrete runs; \<open>Postgres_System\<close>: the orchestrator over Postgres.
  \<^item> \<open>Worker_Pool\<close>: the goroutines of the pool as a step relation, in any interleaving.
  \<^item> \<open>Transport\<close>, \<open>Http_Server\<close>, \<open>Grpc_Server\<close>: the two servers and the client library.
  \<^item> \<open>Config\<close>, \<open>Main_Program\<close>: the configuration, the start and the shutdown of the program.

  \<^bold>\<open>How code becomes definitions.\<close> Every function of the code is a function of the same name where
  Isabelle allows it (a prefix such as \<open>Memory_\<close>, \<open>Postgres_\<close>, \<open>HTTP_\<close> tells methods apart). Mutable
  state is passed explicitly; the mutex of the in-memory store and the transactions of Postgres make
  each store operation one step. Clocks, random bytes, contexts and other outside answers are
  arguments; the JSON library, redsync, the gRPC client and the database server are arguments too, and
  what a theorem needs of them is a named hypothesis. Errors are values of a sum type, panics among
  them. \<^verbatim>\<open>int\<close> and \<^verbatim>\<open>int32\<close> conversions wrap where the code converts; attempts are 32-bit words.

  \<^bold>\<open>What is proved.\<close> Safety of the orchestrator: in every reachable state, over both stores, each saga
  has the shape its status promises; execution is in order and its result is recorded in the phase in
  which it was dispatched; sagas are never lost, keep what was requested, and move along the state
  machine only; final statuses stay. Progress: a saga that is not settled is claimed again after the
  stale timeout, and as many rounds as there is work left settle every saga. Refinement: the handlers,
  the worker and the claiming loop are runs of the transition system, and both stores implement the
  store laws. Requests: starting is idempotent under a key, what is started can be read back, refused
  requests change nothing, cancellation does what it should in every status, listings are pages of one
  ordered listing. Claims: which step each store hands out, and that the in-memory store's claims are
  exclusive. The pool accounts for every accepted task and its shutdown terminates; acquiring the Redis
  lock ends with its context; a contended lock runs nothing; configuration and shutdown behave as
  stated. The theorems about defects (a late worker compensates out of order, Postgres hands out a
  stale step again at once, offsets wrap, a context can become unreadable, the pool can strand a task)
  are stated the way the code behaves.

  \<^bold>\<open>Bounds.\<close> Loops are structural recursion over what they iterate, so nothing runs on fuel. The acquire
  loop of the Redis lock and the claiming loop run over a list of the rounds they see; that the former
  returns is proved from a round in which its context has ended. A request has fewer than \<open>2 ^ 31\<close>
  steps in the transition system, far more than a message can carry: step indices are 32-bit columns
  in Postgres. A Postgres saga has fewer than \<open>2 ^ 31\<close> attempts per step; beyond, a claim fails.

  \<^bold>\<open>Not modelled.\<close> Logging; the generated protobuf, OpenAPI and sqlc code, whose messages are records;
  the request validator in front of the HTTP handlers; closing of connection pools; a commit whose
  outcome stays unknown to the client; and two database statements that interleave: each operation of
  the Postgres store is one atomic step, where the row locks others hold are an argument of the claim.
\<close>

section \<open>Reachable states\<close>

lemma reach_memory_inv:
  "sys_reach memory_store NewMemory S \<Longrightarrow> sys_inv memory_lookup memory_inv S"
  using memory.reach_inv memory_inv_New memory_lookup_New by blast

lemma reach_memory:
  assumes "sys_reach memory_store NewMemory S"
  shows "memory_inv (store_of S)" and "memory_lookup (store_of S) i = Some g \<Longrightarrow> saga_good g"
    and "d \<in> set (claims S) \<Longrightarrow> claim_valid memory_lookup (store_of S) d"
    and "inflight S i = Some p \<Longrightarrow> dispatch_valid memory_lookup (store_of S) i p"
  using reach_memory_inv [OF assms] unfolding sys_inv_def by blast+

lemma demo_view_Some:
  "demo_view S = Some (x, xs) \<Longrightarrow>
   \<exists>g. memory_lookup (store_of S) demo_id = Some g \<and> Status g = x \<and> map step_Status (Steps g) = xs"
  by (auto simp: demo_view_def)

text \<open>C1. In every state the orchestrator can reach over the in-memory store, by any interleaving of
  requests, claims and workers, every stored saga is well-formed: while it executes its steps are a
  completed prefix, one pending or running step and a pending rest; COMPLETED and COMPENSATED mean
  that every step is; CANCELING means that no step is pending or failed and some step is left to
  compensate; every step under way says since when.\<close>

theorem reachable_sagas_well_formed:
  assumes "sys_reach memory_store NewMemory S" and "memory_lookup (store_of S) i = Some g"
  shows "ID g = i \<and> saga_shape (Status g) (map step_Status (Steps g)) \<and> steps_started g"
  using reach_memory(2) [OF assms] memory.lookup_ID [OF reach_memory(1) [OF assms(1)] assms(2)]
  by (simp add: saga_good_def saga_ok_def)

theorem reachable_sagas_well_formed_witness:
  "\<exists>S g. sys_reach memory_store NewMemory S \<and> memory_lookup (store_of S) demo_id = Some g
     \<and> Status g = SagaStatusRunning \<and> saga_shape (Status g) (map step_Status (Steps g))"
proof -
  from after_reach [OF second_step_run] obtain S g where "sys_reach memory_store NewMemory S"
    "memory_lookup (store_of S) demo_id = Some g" "Status g = SagaStatusRunning"
    by (blast dest: demo_view_Some)
  then show ?thesis using reachable_sagas_well_formed by blast
qed

text \<open>C18. The two bad endings mean what they say in every reachable state: a saga is FAILED exactly when
  one of its steps is, and COMPENSATED exactly when all of its steps are.\<close>

theorem failed_and_compensated_exact:
  assumes "sys_reach memory_store NewMemory S" and "memory_lookup (store_of S) i = Some g"
  shows "(Status g = SagaStatusFailed \<longleftrightarrow> (\<exists>st \<in> set (Steps g). step_Status st = SagaStepStatusFailed))
    \<and> (Status g = SagaStatusCompensated \<longleftrightarrow> (\<forall>st \<in> set (Steps g). step_Status st = SagaStepStatusCompensated))"
proof -
  let ?xs = "map step_Status (Steps g)"
  have sh: "saga_shape (Status g) ?xs"
    using reach_memory(2) [OF assms] by (simp add: saga_good_def saga_ok_def)
  have "Status g = SagaStatusFailed \<longleftrightarrow> SagaStepStatusFailed \<in> set ?xs"
    by (rule saga_shape_failed_iff [OF sh])
  moreover have "Status g = SagaStatusCompensated \<longleftrightarrow> (\<forall>x \<in> set ?xs. x = SagaStepStatusCompensated)"
    by (rule saga_shape_compensated_iff [OF sh])
  ultimately show ?thesis by (auto simp: image_iff) metis+
qed

theorem failed_and_compensated_exact_witness:
  "\<exists>S g. sys_reach memory_store NewMemory S \<and> memory_lookup (store_of S) demo_id = Some g
     \<and> Status g \<noteq> SagaStatusFailed \<and> \<not> (\<exists>st \<in> set (Steps g). step_Status st = SagaStepStatusFailed)"
proof -
  from after_reach [OF completed_run] obtain S g where S: "sys_reach memory_store NewMemory S"
    "memory_lookup (store_of S) demo_id = Some g" "Status g = SagaStatusCompleted"
    by (blast dest: demo_view_Some)
  then show ?thesis using failed_and_compensated_exact [OF S(1,2)] by auto
qed

text \<open>C5. No step of the system loses a saga or changes what was requested: after any step every saga is
  still stored with its identity, workflow, context, creation instant, step names and targets, its
  status has moved along transitions of the state machine only, and no started step is pending
  again.\<close>

theorem sagas_only_progress:
  assumes "sys_reach memory_store NewMemory S" and "sys_step memory_store S T"
    and "memory_lookup (store_of S) i = Some g"
  shows "\<exists>h. memory_lookup (store_of T) i = Some h \<and> saga_frame g h \<and> transits (Status g) (Status h)
    \<and> (\<forall>k < length (Steps g). status_at g k \<noteq> SagaStepStatusPending \<longrightarrow> status_at h k \<noteq> SagaStepStatusPending)"
  using memory.sys_step_inv [OF assms(2) reach_memory_inv [OF assms(1)]] assms(3)
  by (auto simp: evolves_def saga_progress_def)

theorem sagas_only_progress_witness:
  "\<exists>S T g h. sys_reach memory_store NewMemory S \<and> sys_step memory_store S T
     \<and> memory_lookup (store_of S) demo_id = Some g \<and> memory_lookup (store_of T) demo_id = Some h
     \<and> transits (Status g) (Status h)"
proof -
  from after_reach [OF claimed_run] obtain S g where S: "sys_reach memory_store NewMemory S"
    "demo_claim 0 ''reserve'' 1 \<in> set (claims S)" "memory_lookup (store_of S) demo_id = Some g"
    by (auto dest!: demo_view_Some)
  then show ?thesis using sagas_only_progress [OF S(1) lose_claim [OF S(2)] S(3)] lose_claim [OF S(2)] by blast
qed

lemma evolves_star:
  assumes "(sys_step memory_store)\<^sup>*\<^sup>* S T" and "sys_reach memory_store NewMemory S"
  shows "sys_reach memory_store NewMemory T \<and> evolves memory_lookup (store_of S) (store_of T)"
  using assms
proof (induction rule: rtranclp_induct)
  case (step T U)
  then show ?case
    using memory.sys_step_inv [OF step(2)] reach_memory_inv evolves_trans reach_step by metis
qed simp

text \<open>C19. COMPENSATED and FAILED are final: whatever the system does afterwards, a saga that has reached
  one of them stays stored in it.\<close>

theorem final_statuses_stay:
  assumes "sys_reach memory_store NewMemory S" and "(sys_step memory_store)\<^sup>*\<^sup>* S T"
    and "memory_lookup (store_of S) i = Some g"
    and "Status g = SagaStatusCompensated \<or> Status g = SagaStatusFailed"
  shows "\<exists>h. memory_lookup (store_of T) i = Some h \<and> Status h = Status g"
  using evolves_star [OF assms(2,1)] assms(3,4) transits_from_sink
  by (fastforce simp: evolves_def saga_progress_def)

theorem final_statuses_stay_witness:
  "\<exists>S T h. sys_reach memory_store NewMemory S \<and> (sys_step memory_store)\<^sup>*\<^sup>* S T
     \<and> memory_lookup (store_of T) demo_id = Some h \<and> Status h = SagaStatusFailed"
proof -
  from after_reach [OF failed_run] obtain S g where S: "sys_reach memory_store NewMemory S"
    "memory_lookup (store_of S) demo_id = Some g" "Status g = SagaStatusFailed"
    by (blast dest: demo_view_Some)
  then show ?thesis using final_statuses_stay [OF S(1) rtranclp.rtrancl_refl S(2)] by auto
qed

section \<open>Workers\<close>





text \<open>C20. A claim never goes wrong by itself: for every claim a worker may hold, however late it gets the
  lock, loading the step on a live context succeeds. The index check
  (\<^verbatim>\<open>ErrClaimedStepIndexOutOfBounds\<close>) and the missing-saga error cannot happen.\<close>

theorem claimed_step_always_loads:
  assumes "sys_reach memory_store NewMemory S" and "d \<in> set (claims S)"
  shows "\<exists>x. loadClaimedStepForDispatch memory_store live d (store_of S) = Inr x"
proof -
  from reach_memory(3) [OF assms] obtain g k where "memory_lookup (store_of S) (claimed_SagaID d) = Some g"
    "claimed_StepIndex d = int k" "k < length (Steps g)" by (auto simp: claim_valid_def)
  then show ?thesis by (rule memory_live.load_live [OF reach_memory(1) [OF assms(1)]])
qed

theorem claimed_step_always_loads_witness:
  "\<exists>S x. sys_reach memory_store NewMemory S
     \<and> loadClaimedStepForDispatch memory_store live (demo_claim 0 ''reserve'' 1) (store_of S) = Inr x"
proof -
  from after_reach [OF claimed_run] obtain S where S: "sys_reach memory_store NewMemory S"
    "demo_claim 0 ''reserve'' 1 \<in> set (claims S)" by auto
  then show ?thesis using claimed_step_always_loads by blast
qed

text \<open>C21. The order of compensations is not kept. There is a run in which a worker that was claimed to
  execute the first step, and was then overtaken, compensates that step while a later step is still
  completed and not compensated: the worker looks at the saga's status and not at the claim it
  holds.\<close>

theorem late_worker_compensates_out_of_order:
  "\<exists>S g. sys_reach memory_store NewMemory S \<and> memory_lookup (store_of S) demo_id = Some g
     \<and> Status g = SagaStatusCanceling
     \<and> map step_Status (Steps g) = [SagaStepStatusCompensated, SagaStepStatusCompleted]"
proof -
  from after_reach [OF late_worker_run] obtain S where "sys_reach memory_store NewMemory S"
    "demo_view S = Some (SagaStatusCanceling, [SagaStepStatusCompensated, SagaStepStatusCompleted])" by blast
  then show ?thesis by (auto dest!: demo_view_Some)
qed

section \<open>Progress\<close>



text \<open>C4. The orchestrator terminates its sagas: from every reachable state, if nobody else works on the
  sagas any more, as many rounds of claim, dispatch and record as there is work left settle every
  saga, whatever the dispatched steps answer; if they all succeed, executing sagas end COMPLETED and
  cancelled ones COMPENSATED.\<close>

theorem rounds_settle_every_saga:
  assumes "sys_reach memory_store NewMemory S"
    and "\<forall>t \<in> set ts. \<forall>j h. memory_lookup (store_of S) j = Some h \<longrightarrow> idle stale t h"
    and "total_work (memory_lookup (store_of S)) \<le> length ts"
    and "memory_lookup (store_of S) i = Some g"
  shows "\<exists>h. memory_lookup (serveSteps memory_store dispatch stale ts (store_of S)) i = Some h
    \<and> IsTerminal (Status h)
    \<and> ((\<forall>x st. dispatch x st = None) \<longrightarrow>
        (Status g = SagaStatusCreated \<or> Status g = SagaStatusRunning \<longrightarrow> Status h = SagaStatusCompleted)
        \<and> (Status g = SagaStatusCanceling \<longrightarrow> Status h = SagaStatusCompensated))"
proof -
  have fin: "finite (dom (memory_lookup (store_of S)))"
    by (rule finite_subset [OF _ finite_dom_map_of [of "sagas (store_of S)"]]) (auto simp: memory_lookup_def)
  have "\<exists>h. memory_lookup (serveSteps memory_store dispatch stale ts (store_of S)) i = Some h
    \<and> \<not> active (Status h) \<and> saga_good h \<and> ((\<forall>g st. dispatch g st = None) \<longrightarrow> healthy (Status g) (Status h))"
    using assms(2-4) reach_memory [OF assms(1)] fin by (intro memory_exact.serveSteps_settle) auto
  then obtain h where h: "memory_lookup (serveSteps memory_store dispatch stale ts (store_of S)) i = Some h"
    "\<not> active (Status h)" "saga_good h" "(\<forall>g st. dispatch g st = None) \<longrightarrow> healthy (Status g) (Status h)" by blast
  have "IsTerminal (Status h)"
    using h(2) saga_good_ok [OF h(3)]
    by (cases "Status h") (auto simp: active_def IsTerminal_def saga_ok_def)
  moreover have "Status h = (if Status g = SagaStatusCreated \<or> Status g = SagaStatusRunning then SagaStatusCompleted
      else if Status g = SagaStatusCanceling then SagaStatusCompensated else Status g)"
    if "\<forall>x st. dispatch x st = None"
    using h(2,4) that by (intro healthy_end) auto
  ultimately show ?thesis using h(1) by auto
qed

theorem rounds_settle_every_saga_witness:
  "\<exists>S ts h. sys_reach memory_store NewMemory S
     \<and> memory_lookup (serveSteps memory_store (\<lambda>_ _. None) 100 ts (store_of S)) demo_id = Some h
     \<and> Status h = SagaStatusCompleted"
proof -
  from after_reach [OF started_run] obtain S where S: "sys_reach memory_store NewMemory S"
    "demo_view S = Some (SagaStatusCreated, [SagaStepStatusPending, SagaStepStatusPending])"
    "list_all (\<lambda>(k, g). list_all (\<lambda>st. step_Status st = SagaStepStatusPending) (Steps g)) (sagas (store_of S))"
    by blast
  have "idle 100 t h" if "memory_lookup (store_of S) j = Some h" for t j h
    using that S(3) by (fastforce simp: memory_lookup_def list_all_iff idle_def dest!: map_of_SomeD)
  then show ?thesis
    using rounds_settle_every_saga [OF S(1), of "replicate (total_work (memory_lookup (store_of S))) 9000" 100
        demo_id _ "\<lambda>_ _. None"] demo_view_Some [OF S(2)]
    by (intro exI [of _ S] exI [of _ "replicate (total_work (memory_lookup (store_of S))) 9000"])
       (auto simp: S(1))
qed

section \<open>The handlers are steps of the system\<close>



text \<open>C12. The claiming loop, over any sequence of rounds with any errors of the store and of the pool, moves
  the system only by its steps; the claims it has submitted are the new claims of the system, and it
  touches no worker.\<close>

theorem run_refines_system:
  assumes "sys_reach memory_store NewMemory S" and "runner_store r = Some memory_store"
    and "Run r rounds (store_of S) = (e, returned, submitted, s')"
  shows "\<exists>T. sys_reach memory_store NewMemory T \<and> (sys_step memory_store)\<^sup>*\<^sup>* S T \<and> store_of T = s'
    \<and> claims T = rev submitted @ claims S \<and> inflight T = inflight S \<and> e = None"
proof -
  have e: "e = None" and loop: "Run_loop memory_store (runner_staleAfter r) rounds [] (store_of S) = (returned, submitted, s')"
    using assms(2,3) by (auto simp: Run_def)
  from run_simulated [OF loop] obtain T where "(sys_step memory_store)\<^sup>*\<^sup>* S T" "store_of T = s'"
    "claims T = rev submitted @ claims S" "inflight T = inflight S" by auto
  then show ?thesis using e evolves_star [OF _ assms(1)] by blast
qed

theorem run_refines_system_witness:
  "\<exists>(r :: (Memory, unit, unit) StepRunner) T. NewStepRunner () (\<lambda>_ _. None) (Some memory_store) None 5 1 1 100 None = Inr r
     \<and> sys_reach memory_store NewMemory T
     \<and> store_of T = snd (snd (snd (Run r
         [\<lparr>ctxStart = live, ctxClaim = live, clock = 5, ctxAfter = live, submitErr = None, ticked = True\<rparr>]
         (store_of (init_sys NewMemory)))))"
proof -
  obtain r :: "(Memory, unit, unit) StepRunner" where
    r: "NewStepRunner () (\<lambda>_ _. None) (Some memory_store) None 5 1 1 100 None = Inr r"
      "runner_store r = Some memory_store"
    by (simp add: NewStepRunner_def)
  let ?rs = "[\<lparr>ctxStart = live, ctxClaim = live, clock = 5, ctxAfter = live, submitErr = None, ticked = True\<rparr>]"
  obtain e b sub s' where run: "Run r ?rs (store_of (init_sys NewMemory)) = (e, b, sub, s')"
    by (cases "Run r ?rs (store_of (init_sys NewMemory))")
  from run_refines_system [OF reach_init r(2) run] obtain T where
    "sys_reach memory_store NewMemory T" "store_of T = s'" by blast
  then show ?thesis using r(1) run by (intro exI [of _ r] exI [of _ T]) simp
qed

section \<open>Requests\<close>

text \<open>C17. A valid start request with a fresh identifier succeeds, and the saga can be read back at once:
  it is CREATED, with the requested workflow, context and steps, every step pending with no attempt
  and no result; no other saga is touched.\<close>

theorem start_then_get:
  assumes "memory_inv m" and "workflow \<noteq> ''''" and "parseContext unmarshal raw = Inr sagaContext"
    and "steps \<noteq> []" and "\<forall>r \<in> set steps. start_Name r \<noteq> '''' \<and> start_GRPCTarget r \<noteq> ''''"
    and "generateSagaID rnd (TrimSpace key) = Inr i" and "memory_lookup m i = None"
  shows "\<exists>m'. StartSagaWithIdempotencyKey (Some memory_store) unmarshal rnd now live live workflow key raw steps m = (Inr i, m')
    \<and> GetSaga (Some memory_store) live i m' = Inr \<lparr>ID = i, Workflow = workflow, Status = SagaStatusCreated,
        Context = cloneMap sagaContext,
        Steps = map (\<lambda>r. \<lparr>step_Name = start_Name r, GRPCTarget = start_GRPCTarget r,
          step_Status = SagaStepStatusPending, Attempt = 0, StartedAt = None, FinishedAt = None,
          step_Error = ''''\<rparr>) steps, CreatedAt = now, UpdatedAt = now\<rparr>
    \<and> (\<forall>j. j \<noteq> i \<longrightarrow> memory_lookup m' j = memory_lookup m j)"
proof -
  have "\<forall>r \<in> set steps. valid_step r" using assms(5) by (simp add: valid_step_def)
  from memory_live.start_fresh [OF assms(1-4) this assms(6,7) TrueI] obtain m' where
    m': "StartSagaWithIdempotencyKey (Some memory_store) unmarshal rnd now live live workflow key raw steps m = (Inr i, m')"
    "memory_inv m'" "memory_lookup m' = (memory_lookup m)(i \<mapsto> Clone (requested_saga i workflow sagaContext steps now))"
    by metis
  have "store_Get memory_store live i m' = Inr (Clone (requested_saga i workflow sagaContext steps now))"
    using memory_live.get_live [OF m'(2)] m'(3) by simp
  then show ?thesis using m' by (auto simp: GetSaga_def requested_saga_def fresh_step_def Clone_def)
qed

theorem start_then_get_witness:
  "\<exists>m'. StartSagaWithIdempotencyKey (Some memory_store) (\<lambda>_. Inr (Some Map.empty)) (Inr [CHR ''a'']) 9 live live
     ''order'' '''' ''{}'' [\<lparr>start_Name = ''s'', start_GRPCTarget = ''t''\<rparr>] NewMemory = (Inr ''61'', m')"
proof -
  have "parseContext (\<lambda>_. Inr (Some Map.empty)) ''{}'' = Inr (Some Map.empty)"
    by (simp add: parseContext_def ParseSagaContext_def MaxSagaContextBytes_def)
  moreover have "generateSagaID (Inr [CHR ''a'']) (TrimSpace '''') = Inr ''61''" by code_simp
  ultimately show ?thesis
    using start_then_get [OF memory_inv_New, of "''order''" "\<lambda>_. Inr (Some Map.empty)" "''{}''" "Some Map.empty"
      "[\<lparr>start_Name = ''s'', start_GRPCTarget = ''t''\<rparr>]" "Inr [CHR ''a'']" "''''" "''61''" 9]
    by auto
qed

text \<open>C16. Starting is idempotent under an idempotency key: once a start with a key has succeeded, every
  later valid start whose key is the same up to surrounding white space returns the same identifier
  and changes nothing, whatever its workflow, context and steps.\<close>

theorem start_is_idempotent:
  assumes "memory_inv m" and "TrimSpace key \<noteq> ''''" and "TrimSpace key' = TrimSpace key"
    and "StartSagaWithIdempotencyKey (Some memory_store) unmarshal rnd now c c' workflow key raw steps m = (Inr i, m')"
    and "workflow' \<noteq> ''''" and "parseContext unmarshal' raw' = Inr sagaContext'" and "steps' \<noteq> []"
    and "\<forall>r \<in> set steps'. start_Name r \<noteq> '''' \<and> start_GRPCTarget r \<noteq> ''''"
  shows "StartSagaWithIdempotencyKey (Some memory_store) unmarshal' rnd' now' live live workflow' key' raw' steps' m'
    = (Inr i, m')"
proof -
  have "memory_inv m' \<and> memory_lookup m' i \<noteq> None \<and> i = generateSagaIDFromIdempotencyKey (TrimSpace key)"
    by (rule memory.start_result [OF assms(1,4) TrueI]) (use assms(2) in auto)
  moreover have "\<forall>r \<in> set steps'. valid_step r" using assms(8) by (simp add: valid_step_def)
  ultimately show ?thesis
    using memory_live.start_again [OF _ assms(5-7), of m' key' rnd' now'] assms(2,3) by auto
qed

theorem start_is_idempotent_witness:
  "\<exists>i m'. StartSagaWithIdempotencyKey (Some memory_store) (\<lambda>_. Inr (Some Map.empty)) (Inr []) 9 live live
      ''order'' ''k'' ''{}'' [\<lparr>start_Name = ''s'', start_GRPCTarget = ''t''\<rparr>] NewMemory = (Inr i, m')
    \<and> StartSagaWithIdempotencyKey (Some memory_store) (\<lambda>_. Inr (Some Map.empty)) (Inr []) 10 live live
      ''refund'' '' k '' ''{}'' [\<lparr>start_Name = ''u'', start_GRPCTarget = ''v''\<rparr>] m' = (Inr i, m')"
proof -
  let ?u = "\<lambda>_. Inr (Some Map.empty) :: error + context_map"
  have k: "TrimSpace ''k'' = ''k''" "TrimSpace '' k '' = ''k''" by code_simp+
  have c: "parseContext ?u ''{}'' = Inr (Some Map.empty)"
    by (simp add: parseContext_def ParseSagaContext_def MaxSagaContextBytes_def)
  obtain i m' where m': "StartSagaWithIdempotencyKey (Some memory_store) ?u (Inr []) 9 live live
      ''order'' ''k'' ''{}'' [\<lparr>start_Name = ''s'', start_GRPCTarget = ''t''\<rparr>] NewMemory = (Inr i, m')"
    by (rule memory_live.start_fresh [OF memory_inv_New _ c, of "''order''"
          "[\<lparr>start_Name = ''s'', start_GRPCTarget = ''t''\<rparr>]" "Inr []" "''k''"])
       (auto simp: valid_step_def k)
  from start_is_idempotent [OF memory_inv_New _ _ m' _ c,
      of "'' k ''" "''refund''" "[\<lparr>start_Name = ''u'', start_GRPCTarget = ''v''\<rparr>]" "Inr []" 10]
  show ?thesis using m' k by auto
qed

text \<open>C24. A request that is refused leaves the store as it was, and the error names the first thing that
  is wrong: the workflow, then the context, then the missing steps, then the first step without a name
  or a target.\<close>

theorem invalid_start_refused:
  "(workflow = '''' \<longrightarrow>
      StartSagaWithIdempotencyKey (Some st) unmarshal rnd now c c' workflow key raw steps s
        = (Inl (Sentinel (ServiceErr ErrInvalidWorkflow)), s))
   \<and> (workflow \<noteq> '''' \<and> parseContext unmarshal raw = Inl e \<longrightarrow>
      StartSagaWithIdempotencyKey (Some st) unmarshal rnd now c c' workflow key raw steps s = (Inl e, s)
      \<and> errors_Is e (ServiceErr ErrInvalidContext))
   \<and> (workflow \<noteq> '''' \<and> parseContext unmarshal raw = Inr sagaContext \<and> steps = [] \<longrightarrow>
      StartSagaWithIdempotencyKey (Some st) unmarshal rnd now c c' workflow key raw steps s
        = (Inl (Sentinel (ServiceErr ErrStepsRequired)), s))
   \<and> (workflow \<noteq> '''' \<and> parseContext unmarshal raw = Inr sagaContext \<and> steps = good @ bad # rest
      \<and> (\<forall>r \<in> set good. valid_step r) \<and> \<not> valid_step bad \<longrightarrow>
      StartSagaWithIdempotencyKey (Some st) unmarshal rnd now c c' workflow key raw steps s
        = (Inl (Sentinel (ServiceErr (if start_Name bad = '''' then ErrInvalidStepName
            else ErrInvalidStepGRPCTarget))), s))"
proof (intro conjI impI)
  assume a: "workflow \<noteq> '''' \<and> parseContext unmarshal raw = Inr sagaContext \<and> steps = good @ bad # rest
      \<and> (\<forall>r \<in> set good. valid_step r) \<and> \<not> valid_step bad"
  then have "validateStartSagaSteps steps = Inl (Sentinel (ServiceErr (if start_Name bad = '''' then ErrInvalidStepName
            else ErrInvalidStepGRPCTarget)))"
    by (simp add: validateStartSagaSteps_def validate_loop_error)
  then show "StartSagaWithIdempotencyKey (Some st) unmarshal rnd now c c' workflow key raw steps s
        = (Inl (Sentinel (ServiceErr (if start_Name bad = '''' then ErrInvalidStepName
            else ErrInvalidStepGRPCTarget))), s)"
    using a by (simp add: StartSagaWithIdempotencyKey_def)
qed (auto simp: StartSagaWithIdempotencyKey_def validateStartSagaSteps_def dest: parseContext_error)

theorem invalid_start_refused_witness:
  "StartSagaWithIdempotencyKey (Some memory_store) (\<lambda>_. Inr (Some Map.empty)) (Inr []) 9 live live
      ''order'' ''k'' ''{}'' [\<lparr>start_Name = ''s'', start_GRPCTarget = ''t''\<rparr>, \<lparr>start_Name = ''u'', start_GRPCTarget = ''''\<rparr>]
      NewMemory = (Inl (Sentinel (ServiceErr ErrInvalidStepGRPCTarget)), NewMemory)"
proof -
  have "parseContext (\<lambda>_. Inr (Some Map.empty)) ''{}'' = Inr (Some Map.empty)"
    by (simp add: parseContext_def ParseSagaContext_def MaxSagaContextBytes_def)
  then show ?thesis
    using invalid_start_refused [of "''order''" memory_store "\<lambda>_. Inr (Some Map.empty)" "Inr []" 9 live live "''k''" "''{}''"
      "[\<lparr>start_Name = ''s'', start_GRPCTarget = ''t''\<rparr>, \<lparr>start_Name = ''u'', start_GRPCTarget = ''''\<rparr>]" NewMemory
      undefined "Some Map.empty" "[\<lparr>start_Name = ''s'', start_GRPCTarget = ''t''\<rparr>]"
      "\<lparr>start_Name = ''u'', start_GRPCTarget = ''''\<rparr>" "[]"]
    by (simp add: valid_step_def)
qed

text \<open>C13. Cancelling, in every case: an unknown saga gives \<^verbatim>\<open>ErrSagaNotFound\<close> and a failed one
  \<^verbatim>\<open>ErrSagaCancelNotAllowed\<close>, and neither changes the store; every other saga is cancelled: its
  pending steps become COMPENSATED, the others are untouched, and the saga is CANCELING while a step
  is left to compensate and COMPENSATED otherwise. The answer is the saga as it is then stored.\<close>

theorem cancel_outcome:
  assumes "memory_inv m" and "\<forall>g. memory_lookup m i = Some g \<longrightarrow> saga_ok g"
    and "CancelSaga (Some memory_store) (newSagaLocker h None ttl) lockNow deadline requestErr
      (replicate n Tick @ [LockCtxDone Canceled]) live stepNow now i l m = (r, l', m')"
  shows "case memory_lookup m i of
      None \<Rightarrow> r = Inl (Sentinel (ServiceErr ErrSagaNotFound)) \<and> m' = m
    | Some g \<Rightarrow>
        if Status g = SagaStatusFailed then r = Inl (Sentinel (ServiceErr ErrSagaCancelNotAllowed)) \<and> m' = m
        else \<exists>g'. r = Inr g' \<and> memory_lookup m' = (memory_lookup m)(i \<mapsto> g') \<and> saga_frame g g'
          \<and> map step_Status (Steps g') = map (\<lambda>st. if step_Status st = SagaStepStatusPending
              then SagaStepStatusCompensated else step_Status st) (Steps g)
          \<and> Status g' = (if \<exists>st \<in> set (Steps g). step_Status st = SagaStepStatusCompleted
                \<or> step_Status st = SagaStepStatusRunning \<or> step_Status st = SagaStepStatusCompensating
              then SagaStatusCanceling else SagaStatusCompensated)"
proof (cases "memory_lookup m i")
  case None
  have "store_Update memory_store live now i (cancelCandidate stepNow) m = (Inl (Sentinel (StoreErr ErrNotFound)), m)"
    using memory_live.update_live_missing [OF assms(1) None] .
  then show ?thesis using assms(3) None by (simp add: memory_live.cancel_noop mapStoreError_def)
next
  case (Some g)
  show ?thesis
  proof (cases "cancelCandidate stepNow g")
    case (Inl e)
    have "store_Update memory_store live now i (cancelCandidate stepNow) m = (Inl e, m)"
      using memory_live.update_live_refused [where fn = "cancelCandidate stepNow", OF assms(1) Some Inl] .
    then show ?thesis using assms(3) Some Inl
      by (auto simp: memory_live.cancel_noop cancelCandidate_error mapStoreError_def)
  next
    case (Inr g')
    let ?k = "Clone (g'\<lparr>UpdatedAt := now\<rparr>)"
    obtain s' where s': "store_Update memory_store live now i (cancelCandidate stepNow) m = (Inr ?k, s')"
      "memory_lookup s' = (memory_lookup m)(i \<mapsto> ?k)"
      using memory_live.cancel_live [OF assms(1) Some Inr] by blast
    have "r = Inr ?k" "m' = s'" using assms(3) s'(1) by (simp_all add: memory_live.cancel_noop)
    moreover have "Clone g = g" using Some by (auto simp: memory_lookup_def)
    then have "saga_frame g ?k" using memory.keep_frame [of g "g'\<lparr>UpdatedAt := now\<rparr>"] cancelCandidate_frame [OF Inr] by simp
    moreover have "Status g \<noteq> SagaStatusFailed" using Inr by (auto simp: cancelCandidate_def)
    ultimately show ?thesis
      using cancelCandidate_statuses [OF _ Inr] assms(2) s'(2) Some
      by (auto simp: cancel_status_def settled_def)
  qed
qed

lemma sample_saga_ok: "saga_ok (sample_saga i t)"
  by (simp add: saga_ok_def sample_saga_def pending_step_def exec_shape_def nth_Cons split: nat.splits)

theorem cancel_outcome_witness:
  "\<exists>g' m'. CancelSaga (Some memory_store) (newSagaLocker () None 5) 0 None None
      (replicate 2 Tick @ [LockCtxDone Canceled]) live 30 31 ''a'' () sample_memory = (Inr g', (), m')
    \<and> Status g' = SagaStatusCompensated"
proof -
  obtain r l' m' where r: "CancelSaga (Some memory_store) (newSagaLocker () None 5) 0 None None
      (replicate 2 Tick @ [LockCtxDone Canceled]) live 30 31 ''a'' () sample_memory = (r, l', m')"
    by (metis prod.collapse)
  have "\<forall>g. memory_lookup sample_memory ''a'' = Some g \<longrightarrow> saga_ok g"
    using sample_lookup sample_saga_ok by simp
  from cancel_outcome [OF sample_memory_inv this r] show ?thesis
    unfolding r using sample_lookup by (auto simp: sample_saga_def pending_step_def)
qed

text \<open>C22. Listing pages through all sagas: with a valid page the answer is the requested stretch of one
  fixed listing, with limit 0 meaning 50 and limits capped at 200; the listing holds every stored saga
  with the requested status exactly once, in order of creation instant and identifier; and no page,
  however large its offset, makes the store panic.\<close>

theorem list_pages:
  assumes "memory_inv m" and "0 \<le> limit" and "0 \<le> offset" and "int (length (sagas m)) \<le> max_int64 - 200"
    and "TrimSpace status = '''' \<and> want = None \<or> TrimSpace status \<noteq> '''' \<and> (\<exists>s. ParseSagaStatus status = Inr s \<and> want = Some s)"
  shows "\<exists>xs. ListSagas (Some memory_store) live status limit offset m
      = Inr (take (nat (if limit = 0 then 50 else min limit 200)) (drop (nat offset) xs))
    \<and> distinct (map ID xs) \<and> sorted (map (\<lambda>g. (CreatedAt g, ID g)) xs)
    \<and> (\<forall>g. g \<in> set xs \<longleftrightarrow> memory_lookup m (ID g) = Some g \<and> (\<forall>s. want = Some s \<longrightarrow> Status g = s))"
proof -
  let ?l = "if limit = 0 then 50 else min limit 200"
  have page: "validatePage limit offset = Inr (?l, offset)"
    using assms(2,3) by (auto simp: validatePage_def defaultPageLimit_def maxPageLimit_def Let_def min_def)
  have "ParseSagaStatus (TrimSpace status) = ParseSagaStatus status" by (simp add: ParseSagaStatus_def)
  then have "ListSagas (Some memory_store) live status limit offset m = Memory_List live want ?l offset m"
    using assms(5) page by (auto simp: ListSagas_def memory_store_def Let_def)
  also have "\<dots> = Inr (take (nat ?l) (drop (nat offset) (listing want m)))"
  proof (rule Memory_List_page_total)
    show "0 < ?l" "0 \<le> offset" using assms(2,3) by auto
    have "?l \<le> 200" by simp
    moreover have "int (length (listing want m)) \<le> int (length (sagas m))"
      by (simp add: listing_def order_trans [OF length_filter_le])
    ultimately show "int (length (listing want m)) + ?l \<le> max_int64" using assms(4) by linarith
  qed
  finally show ?thesis
    using distinct_listing [OF assms(1)] sorted_listing set_listing [OF assms(1), of _ want]
    by (intro exI [of _ "listing want m"]) (auto simp: saga_order_def [abs_def] matches_def split: option.splits)
qed

theorem list_pages_witness:
  "\<exists>xs. ListSagas (Some memory_store) live '' created '' 0 1 sample_memory = Inr (take 50 (drop 1 xs))
    \<and> distinct (map ID xs)"
proof -
  have "ParseSagaStatus '' created '' = Inr SagaStatusCreated" "TrimSpace '' created '' \<noteq> ''''"
    by code_simp+
  then show ?thesis
    using list_pages [OF sample_memory_inv, of 0 1 "'' created ''" "Some SagaStatusCreated"]
    by (auto simp: sample_memory_def max_int64_def)
qed

end
